theory Spec2Isabelle
  imports Main
begin

section \<open>SummaryManager (packages/runtime/container-runtime/src/summaryManager.ts)\<close>

text \<open>
  The manager is a single-threaded, event-driven object: every handler runs to completion
  before the next event is delivered.  Its fields become a record; each method becomes a
  function from the record to the updated record; each promise the code creates and later
  resumes from (the in-flight \<^verbatim>\<open>createSummarizer\<close> call, the summarizer's
  \<^verbatim>\<open>run\<close>) is a list of pending continuations that an event of the environment
  consumes.  Calls into collaborators (logger, container context, the summarizer handle, the
  timer) are recorded in \<open>effects\<close>, in program order.
\<close>

datatype SummaryManagerState = Off | Starting | Running | Stopping | Disabled

datatype StopReason = ParentNotConnected | ParentShouldNotSummarize | Disposed

datatype ShouldSummarizeState =
    shouldSummarize: ShouldSummarize (shouldStart: bool)
  | ShouldNotSummarize (stopReason: StopReason)

text \<open>\<^verbatim>\<open>ITrackedClient\<close>, as far as the manager reads it.\<close>

record ITrackedClient =
  tc_clientId :: string
  tc_sequenceNumber :: int

text \<open>The part of the loader's response that \<^verbatim>\<open>createSummarizer\<close> inspects; a
  summarizer handle is identified by a number.\<close>

record IResponse =
  status :: int
  mimeType :: string
  value_ISummarizer :: "nat option"

text \<open>The initial-delay \<^verbatim>\<open>PromiseTimer\<close>: running, elapsed, or cleared before
  it elapsed.\<close>

datatype TimerStatus = TimerPending | TimerFired | TimerCleared

datatype effect =
    EmitSummarizer "string option"
  | TelemetryEvent string
  | ErrorEvent string
  | RaiseContainerWarning string bool
  | CreateSummarizerCall int bool
  | SummarizerRun nat "string option"
  | SummarizerStop nat StopReason
  | UpdateOnBehalfOf nat string
  | TimerClear

record SummaryManager =
  \<comment> \<open>constructor arguments and context, constant over the manager's life\<close>
  summariesEnabled :: bool
  clientIsSummarizer :: bool
  maxOpsSinceLastSummary :: int
  initialSequenceNumber :: int
  \<comment> \<open>what \<^verbatim>\<open>PromiseTimer.clear()\<close> does to the promise of a running timer;
     the class is not part of the sources at hand, so this is a parameter\<close>
  clearSettlesDelay :: bool
  \<comment> \<open>\<^verbatim>\<open>startThrottler\<close>: the value the n-th call of \<^verbatim>\<open>getDelay()\<close>
     returns, and the number of calls made so far\<close>
  throttleDelay :: "nat \<Rightarrow> int"
  throttleCalls :: nat
  \<comment> \<open>\<^verbatim>\<open>orderedClients\<close>: what getElectedClient() and getSummarizerCount() return\<close>
  electedClient :: "ITrackedClient option"
  summarizerCount :: nat
  \<comment> \<open>private fields\<close>
  electedClientId :: "string option"
  clientId :: "string option"
  latestClientId :: "string option"
  connected :: bool
  state :: SummaryManagerState
  runningSummarizer :: "nat option"
  disposed :: bool
  opsUntilFirstConnect :: int
  opsHandlerAttached :: bool
  lastSummaryAckSeqForClient :: int
  hasSummarizersInQuorum :: bool
  hasLoggedTelemetry :: bool
  initialDelayTimer :: TimerStatus
  \<comment> \<open>promises in flight: createSummarizer calls (delayMs, shouldInitialDelay) and
     summarizers whose run() has not settled; summarizers listened to for warnings\<close>
  pendingCreate :: "(int \<times> bool) list"
  pendingRun :: "nat list"
  listening :: "nat list"
  \<comment> \<open>observations: calls into collaborators, and every value assigned to \<open>state\<close>\<close>
  effects :: "effect list"
  stateLog :: "SummaryManagerState list"

definition defaultInitialDelayMs :: int where
  "defaultInitialDelayMs = 5000"

definition opsToBypassInitialDelay :: int where
  "opsToBypassInitialDelay = 4000"

definition defaultThrottleMaxDelayMs :: int where
  "defaultThrottleMaxDelayMs = 30 * 1000"

definition perform :: "effect \<Rightarrow> SummaryManager \<Rightarrow> SummaryManager" where
  "perform e s = s\<lparr>effects := effects s @ [e]\<rparr>"

text \<open>\<^verbatim>\<open>this.state = v\<close>; the assignment is also appended to \<open>stateLog\<close>.\<close>

definition setState :: "SummaryManagerState \<Rightarrow> SummaryManager \<Rightarrow> SummaryManager" where
  "setState v s = s\<lparr>state := v, stateLog := stateLog s @ [v]\<rparr>"

definition summarizer :: "SummaryManager \<Rightarrow> string option" where
  "summarizer s = electedClientId s"

definition getShouldSummarizeState :: "SummaryManager \<Rightarrow> ShouldSummarizeState" where
  "getShouldSummarizeState s =
     (if \<not> connected s then ShouldNotSummarize ParentNotConnected
      else if clientId s \<noteq> summarizer s then ShouldNotSummarize ParentShouldNotSummarize
      else if disposed s then ShouldNotSummarize Disposed
      else if summarizerCount s > 0 then ShouldSummarize False
      else ShouldSummarize True)"

definition raiseContainerWarning :: "string \<Rightarrow> bool \<Rightarrow> SummaryManager \<Rightarrow> SummaryManager" where
  "raiseContainerWarning msg logged s = perform (RaiseContainerWarning msg logged) s"

text \<open>\<^verbatim>\<open>startThrottler.getDelay()\<close>.\<close>

definition getDelay :: "SummaryManager \<Rightarrow> int \<times> SummaryManager" where
  "getDelay s = (throttleDelay s (throttleCalls s), s\<lparr>throttleCalls := Suc (throttleCalls s)\<rparr>)"

text \<open>\<^verbatim>\<open>createSummarizer(delayMs)\<close> up to its first suspension: the telemetry
  event, the two delay decisions, and the promise left in flight.\<close>

definition createSummarizer :: "int \<Rightarrow> SummaryManager \<Rightarrow> SummaryManager" where
  "createSummarizer delayMs s =
     (let s1 = perform (TelemetryEvent ''CreatingSummarizer'') s;
          shouldInitialDelay = (opsUntilFirstConnect s1 < opsToBypassInitialDelay)
      in (perform (CreateSummarizerCall delayMs shouldInitialDelay) s1)
           \<lparr>pendingCreate := pendingCreate s1 @ [(delayMs, shouldInitialDelay)]\<rparr>)"

definition start :: "SummaryManager \<Rightarrow> SummaryManager" where
  "start s =
     (if \<not> summariesEnabled s then
        setState Disabled (perform (TelemetryEvent ''SummariesDisabled'') s)
      else if clientIsSummarizer s then setState Disabled s
      else
        (let s1 = setState Starting s;
             (delayMs, s2) = getDelay s1;
             s3 = (if delayMs \<ge> defaultThrottleMaxDelayMs
                   then raiseContainerWarning
                          ''SummaryManager: CreateSummarizer Max Throttle Delay'' False s2
                   else s2)
         in createSummarizer delayMs s3))"

definition stop :: "StopReason \<Rightarrow> SummaryManager \<Rightarrow> SummaryManager" where
  "stop reason s =
     (let s1 = setState Stopping s
      in case runningSummarizer s1 of
           Some sm \<Rightarrow> perform (SummarizerStop sm reason) s1
         | None \<Rightarrow>
             setState Off (perform (ErrorEvent ''StopCalledWithoutRunningSummarizer'') s1))"

definition tryRestart :: "SummaryManager \<Rightarrow> SummaryManager" where
  "tryRestart s =
     (case getShouldSummarizeState s of
        ShouldSummarize True \<Rightarrow> start s
      | _ \<Rightarrow> setState Off s)"

text \<open>\<^verbatim>\<open>run(summarizer)\<close>: the synchronous part.  The \<^verbatim>\<open>finally\<close> callback is
  \<open>run_finally\<close>, applied when the summarizer's run settles.\<close>

definition run :: "nat \<Rightarrow> SummaryManager \<Rightarrow> SummaryManager" where
  "run sm s =
     (let s1 = setState Running s;
          s2 = s1\<lparr>runningSummarizer := Some sm\<rparr>;
          s3 = (perform (SummarizerRun sm (latestClientId s2)) s2)
                 \<lparr>pendingRun := pendingRun s2 @ [sm]\<rparr>
      in case getShouldSummarizeState s3 of
           ShouldNotSummarize reason \<Rightarrow> stop reason s3
         | ShouldSummarize _ \<Rightarrow> s3)"

definition run_finally :: "SummaryManager \<Rightarrow> SummaryManager" where
  "run_finally s = tryRestart (s\<lparr>runningSummarizer := None\<rparr>)"

definition refreshSummarizer :: "SummaryManager \<Rightarrow> SummaryManager" where
  "refreshSummarizer s =
     (let newSummarizerClientId = map_option tc_clientId (electedClient s);
          s1 = (if newSummarizerClientId \<noteq> electedClientId s
                then perform (EmitSummarizer newSummarizerClientId)
                       (s\<lparr>electedClientId := newSummarizerClientId\<rparr>)
                else s);
          shouldSummarizeState = getShouldSummarizeState s1
      in case state s1 of
           Off \<Rightarrow> (case shouldSummarizeState of
                     ShouldSummarize True \<Rightarrow> start s1
                   | _ \<Rightarrow> s1)
         | Starting \<Rightarrow> s1
         | Running \<Rightarrow> (case shouldSummarizeState of
                         ShouldNotSummarize reason \<Rightarrow> stop reason s1
                       | ShouldSummarize _ \<Rightarrow> s1)
         | Stopping \<Rightarrow> s1
         | Disabled \<Rightarrow> s1)"

definition setClientId :: "string option \<Rightarrow> SummaryManager \<Rightarrow> SummaryManager" where
  "setClientId cid s =
     (let s1 = s\<lparr>clientId := cid\<rparr>
      in case cid of
           None \<Rightarrow> s1
         | Some c \<Rightarrow>
             (let s2 = s1\<lparr>latestClientId := Some c\<rparr>
              in case runningSummarizer s2 of
                   Some sm \<Rightarrow> perform (UpdateOnBehalfOf sm c) s2
                 | None \<Rightarrow> s2))"

definition updateConnected :: "bool \<Rightarrow> string option \<Rightarrow> SummaryManager \<Rightarrow> SummaryManager" where
  "updateConnected c cid s =
     (if connected s = c then s
      else refreshSummarizer (setClientId cid (s\<lparr>connected := c\<rparr>)))"

definition setConnected :: "string \<Rightarrow> SummaryManager \<Rightarrow> SummaryManager" where
  "setConnected cid s = updateConnected True (Some cid) s"

definition setDisconnected :: "SummaryManager \<Rightarrow> SummaryManager" where
  "setDisconnected s = updateConnected False None s"

text \<open>\<^verbatim>\<open>dispose()\<close>.  Clearing the timer stops it if it is still running; a timer
  that has elapsed stays elapsed.\<close>

definition dispose :: "SummaryManager \<Rightarrow> SummaryManager" where
  "dispose s =
     (perform TimerClear s)
       \<lparr>initialDelayTimer :=
          (if initialDelayTimer s = TimerPending then TimerCleared else initialDelayTimer s),
        disposed := True\<rparr>"

subsection \<open>Listeners installed by the constructor\<close>

definition opsUntilFirstConnectHandler :: "string \<Rightarrow> int \<Rightarrow> SummaryManager \<Rightarrow> SummaryManager" where
  "opsUntilFirstConnectHandler cid sequenceNumber s =
     (if opsHandlerAttached s \<and> opsUntilFirstConnect s = - 1 \<and> Some cid = clientId s
      then s\<lparr>opsHandlerAttached := False,
             opsUntilFirstConnect := sequenceNumber - initialSequenceNumber s\<rparr>
      else s)"

definition on_summaryOp :: "int \<Rightarrow> SummaryManager \<Rightarrow> SummaryManager" where
  "on_summaryOp sequenceNumber s =
     (let opsSinceLastAckForClient = sequenceNumber - lastSummaryAckSeqForClient s
      in if opsSinceLastAckForClient > maxOpsSinceLastSummary s
            \<and> \<not> hasLoggedTelemetry s \<and> electedClientId s \<noteq> None
         then perform (ErrorEvent ''ElectedClientNotSummarizing'') s
         else s)"

definition on_summaryAck :: "int \<Rightarrow> SummaryManager \<Rightarrow> SummaryManager" where
  "on_summaryAck sequenceNumber s =
     s\<lparr>hasLoggedTelemetry := False, lastSummaryAckSeqForClient := sequenceNumber\<rparr>"

definition on_summarizerChange :: "nat \<Rightarrow> SummaryManager \<Rightarrow> SummaryManager" where
  "on_summarizerChange count s =
     (let s0 = s\<lparr>summarizerCount := count\<rparr>;
          prev = hasSummarizersInQuorum s0;
          s1 = s0\<lparr>hasSummarizersInQuorum := (count > 0)\<rparr>
      in if prev \<noteq> hasSummarizersInQuorum s1 then refreshSummarizer s1 else s1)"

definition on_electedChange :: "ITrackedClient option \<Rightarrow> SummaryManager \<Rightarrow> SummaryManager" where
  "on_electedChange client s =
     (let s0 = s\<lparr>electedClient := client\<rparr>;
          s1 = s0\<lparr>hasLoggedTelemetry := False\<rparr>;
          s2 = (case client of
                  Some c \<Rightarrow> s1\<lparr>lastSummaryAckSeqForClient := tc_sequenceNumber c\<rparr>
                | None \<Rightarrow> s1)
      in refreshSummarizer s2)"

subsection \<open>Continuations of the promises\<close>

text \<open>\<^verbatim>\<open>createSummarizer\<close> after \<^verbatim>\<open>loader.request\<close> answered: \<open>Some sm\<close> when the
  promise resolves with a summarizer, \<open>None\<close> when it rejects.\<close>

definition createSummarizer_result :: "IResponse \<Rightarrow> nat option" where
  "createSummarizer_result response =
     (if status response \<noteq> 200
         \<or> (mimeType response \<noteq> ''fluid/object'' \<and> mimeType response \<noteq> ''fluid/component'')
      then None
      else value_ISummarizer response)"

text \<open>The two callbacks \<^verbatim>\<open>start\<close> passes to \<^verbatim>\<open>then\<close>.\<close>

definition start_onFulfilled :: "nat \<Rightarrow> SummaryManager \<Rightarrow> SummaryManager" where
  "start_onFulfilled sm s = run sm (s\<lparr>listening := listening s @ [sm]\<rparr>)"

definition start_onRejected :: "SummaryManager \<Rightarrow> SummaryManager" where
  "start_onRejected s = tryRestart (perform (ErrorEvent ''CreateSummarizerError'') s)"

definition initialDelayP_settled :: "SummaryManager \<Rightarrow> bool" where
  "initialDelayP_settled s =
     (initialDelayTimer s = TimerFired
      \<or> (initialDelayTimer s = TimerCleared \<and> clearSettlesDelay s))"

subsection \<open>The constructor\<close>

record SummaryManagerArgs =
  ctx_connected :: bool
  ctx_clientId :: "string option"
  arg_summariesEnabled :: bool
  arg_clientIsSummarizer :: bool
  arg_maxOpsSinceLastSummary :: int
  arg_initialSequenceNumber :: int
  arg_clearSettlesDelay :: bool
  arg_throttleDelay :: "nat \<Rightarrow> int"
  arg_electedClient :: "ITrackedClient option"
  arg_summarizerCount :: nat

definition construct :: "SummaryManagerArgs \<Rightarrow> SummaryManager" where
  "construct a =
     (let s0 = \<lparr>summariesEnabled = arg_summariesEnabled a,
                clientIsSummarizer = arg_clientIsSummarizer a,
                maxOpsSinceLastSummary = arg_maxOpsSinceLastSummary a,
                initialSequenceNumber = arg_initialSequenceNumber a,
                clearSettlesDelay = arg_clearSettlesDelay a,
                throttleDelay = arg_throttleDelay a,
                throttleCalls = 0,
                electedClient = arg_electedClient a,
                summarizerCount = arg_summarizerCount a,
                electedClientId = None,
                clientId = None,
                latestClientId = None,
                connected = ctx_connected a,
                state = Off,
                runningSummarizer = None,
                disposed = False,
                opsUntilFirstConnect = - 1,
                opsHandlerAttached = True,
                lastSummaryAckSeqForClient = 0,
                hasSummarizersInQuorum = (arg_summarizerCount a > 0),
                hasLoggedTelemetry = False,
                initialDelayTimer = TimerPending,
                pendingCreate = [],
                pendingRun = [],
                listening = [],
                effects = [],
                stateLog = []\<rparr>;
          s1 = (if connected s0 then setClientId (ctx_clientId a) s0 else s0)
      in refreshSummarizer s1)"

subsection \<open>Events\<close>

text \<open>
  One constructor per event the manager reacts to.  An event of \<^verbatim>\<open>orderedClients\<close>
  carries the new elected client or summarizer count, which the election object already
  returns when its listener runs.  An event that cannot occur in the current state (a
  promise settling that is not in flight, a timer firing that is not running, a creation
  resuming before the delay it awaits has settled) yields \<open>None\<close>.  The throttle delay a
  creation awaits always elapses, so it guards nothing.
\<close>

datatype event =
    SetConnected string
  | SetDisconnected
  | Dispose
  | ElectedChange "ITrackedClient option"
  | SummarizerChange nat
  | AddMember string int
  | SummaryOp int
  | SummaryAck int
  | InitialDelayElapsed
  | LoaderResponse IResponse
  | LoaderError
  | SummarizerExited
  | SummarizingError string bool

definition resumeCreate :: "SummaryManager \<Rightarrow> (SummaryManager \<Rightarrow> SummaryManager) \<Rightarrow> SummaryManager option" where
  "resumeCreate s k =
     (case pendingCreate s of
        [] \<Rightarrow> None
      | (delayMs, shouldInitialDelay) # rest \<Rightarrow>
          if shouldInitialDelay \<and> \<not> initialDelayP_settled s then None
          else Some (k (s\<lparr>pendingCreate := rest\<rparr>)))"

fun step :: "SummaryManager \<Rightarrow> event \<Rightarrow> SummaryManager option" where
  "step s (SetConnected cid) = Some (setConnected cid s)"
| "step s SetDisconnected = Some (setDisconnected s)"
| "step s Dispose = Some (dispose s)"
| "step s (ElectedChange client) = Some (on_electedChange client s)"
| "step s (SummarizerChange count) = Some (on_summarizerChange count s)"
| "step s (AddMember cid sequenceNumber) = Some (opsUntilFirstConnectHandler cid sequenceNumber s)"
| "step s (SummaryOp sequenceNumber) = Some (on_summaryOp sequenceNumber s)"
| "step s (SummaryAck sequenceNumber) = Some (on_summaryAck sequenceNumber s)"
| "step s InitialDelayElapsed =
     (if initialDelayTimer s = TimerPending then Some (s\<lparr>initialDelayTimer := TimerFired\<rparr>)
      else None)"
| "step s (LoaderResponse response) =
     resumeCreate s
       (case createSummarizer_result response of
          Some sm \<Rightarrow> start_onFulfilled sm
        | None \<Rightarrow> start_onRejected)"
| "step s LoaderError = resumeCreate s start_onRejected"
| "step s SummarizerExited =
     (case pendingRun s of
        [] \<Rightarrow> None
      | sm # rest \<Rightarrow> Some (run_finally (s\<lparr>pendingRun := rest\<rparr>)))"
| "step s (SummarizingError msg logged) =
     (if listening s = [] then None else Some (raiseContainerWarning msg logged s))"

fun run_events :: "SummaryManager \<Rightarrow> event list \<Rightarrow> SummaryManager option" where
  "run_events s [] = Some s"
| "run_events s (e # es) = (case step s e of None \<Rightarrow> None | Some s' \<Rightarrow> run_events s' es)"

subsection \<open>Invariants and scenarios used below\<close>

text \<open>
  What ties the lifecycle state to the promises in flight: a creation is in flight exactly
  in \<open>Starting\<close>, a summarizer run exactly in \<open>Running\<close> and \<open>Stopping\<close>, never more
  than one of either; a running manager holds its summarizer; and \<open>Disabled\<close> is only
  entered under the configuration that \<^verbatim>\<open>start\<close> tests for.
\<close>

definition lifecycle_inv :: "SummaryManager \<Rightarrow> bool" where
  "lifecycle_inv s =
     ((pendingCreate s \<noteq> []) = (state s = Starting)
      \<and> (pendingRun s \<noteq> []) = (state s = Running \<or> state s = Stopping)
      \<and> (state s \<noteq> Running \<or> runningSummarizer s \<noteq> None)
      \<and> (state s \<noteq> Disabled \<or> \<not> summariesEnabled s \<or> clientIsSummarizer s)
      \<and> length (pendingCreate s) \<le> 1 \<and> length (pendingRun s) \<le> 1)"

definition quiet :: "SummaryManager \<Rightarrow> bool" where
  "quiet s = (pendingCreate s = [] \<and> pendingRun s = [])"

text \<open>A disposed manager between two events: not \<open>Running\<close>, its initial-delay timer not
  running, and every value assigned to \<open>state\<close> from position \<open>n\<close> of the log on is
  \<open>Running\<close>, \<open>Stopping\<close> or \<open>Off\<close>.\<close>

definition disposed_at_rest :: "nat \<Rightarrow> SummaryManager \<Rightarrow> bool" where
  "disposed_at_rest n s =
     (disposed s \<and> state s \<noteq> Running \<and> initialDelayTimer s \<noteq> TimerPending
      \<and> set (drop n (stateLog s)) \<subseteq> {Running, Stopping, Off})"

text \<open>A manager constructed connected and elected, with summaries disabled.\<close>

definition args_disabled :: SummaryManagerArgs where
  "args_disabled =
     \<lparr>ctx_connected = True, ctx_clientId = Some ''A'', arg_summariesEnabled = False,
      arg_clientIsSummarizer = False, arg_maxOpsSinceLastSummary = 100,
      arg_initialSequenceNumber = 0, arg_clearSettlesDelay = True,
      arg_throttleDelay = (\<lambda>n. 0),
      arg_electedClient = Some \<lparr>tc_clientId = ''A'', tc_sequenceNumber = 1\<rparr>,
      arg_summarizerCount = 0\<rparr>"

definition events_after_disabled :: "event list" where
  "events_after_disabled =
     [SetDisconnected, SetConnected ''B'',
      ElectedChange (Some \<lparr>tc_clientId = ''B'', tc_sequenceNumber = 2\<rparr>),
      SummarizerChange 1, SummarizerChange 0, InitialDelayElapsed, Dispose]"

text \<open>A manager constructed disconnected, with summaries enabled; it connects as \<open>A\<close>, sees
  its own join 5000 ops after the initial sequence number (so the initial delay is bypassed)
  and is then elected.  The throttler never delays; a cleared timer leaves its promise
  unsettled.\<close>

definition args_enabled :: SummaryManagerArgs where
  "args_enabled =
     \<lparr>ctx_connected = False, ctx_clientId = None, arg_summariesEnabled = True,
      arg_clientIsSummarizer = False, arg_maxOpsSinceLastSummary = 100,
      arg_initialSequenceNumber = 0, arg_clearSettlesDelay = False,
      arg_throttleDelay = (\<lambda>n. 0),
      arg_electedClient = None,
      arg_summarizerCount = 0\<rparr>"

definition events_until_Starting :: "event list" where
  "events_until_Starting =
     [SetConnected ''A'', AddMember ''A'' 5000,
      ElectedChange (Some \<lparr>tc_clientId = ''A'', tc_sequenceNumber = 5000\<rparr>)]"

definition response_ok :: IResponse where
  "response_ok = \<lparr>status = 200, mimeType = ''fluid/object'', value_ISummarizer = Some 7\<rparr>"

text \<open>The same manager with a throttler that is at its ceiling; and one that has
  \<open>A\<close> elected from the beginning.\<close>

definition args_throttled :: SummaryManagerArgs where
  "args_throttled = args_enabled\<lparr>arg_throttleDelay := (\<lambda>n. 30000)\<rparr>"

definition args_throttled_elected :: SummaryManagerArgs where
  "args_throttled_elected =
     args_throttled\<lparr>arg_electedClient := Some \<lparr>tc_clientId = ''A'', tc_sequenceNumber = 1\<rparr>\<rparr>"

section \<open>AgentScheduler (packages/runtime/agent-scheduler/src/scheduler.ts)\<close>

text \<open>
  The scheduler's three collections keep JavaScript's insertion order: the
  \<^verbatim>\<open>Map\<close> of runnable tasks is an association list with distinct keys, the
  \<^verbatim>\<open>Set\<close> of running tasks a list.  \<open>registeredTasks\<close> is only ever tested
  and extended, so it is a set.  The replica's view of the consensus register is an
  association list (\<^verbatim>\<open>keys()\<close> is iterated): a key that is absent reads as
  \<^verbatim>\<open>undefined\<close>, \<open>None\<close> is \<^verbatim>\<open>null\<close> (unclaimed), \<open>Some c\<close> a claimant.
  A call of \<^verbatim>\<open>consensusRegisterCollection.write\<close> is recorded in \<open>writes\<close>; whether
  and when the register accepts it is the environment's business, which reports an accepted
  value through the \<^verbatim>\<open>atomicChanged\<close> event.  A thrown exception leaves the fields
  as they were when it was thrown, so every operation returns the exception (if any)
  together with the state.
\<close>

datatype AttachState = Detached | Attaching | Attached

datatype sched_error =
    AlreadyRegistered string
  | AlreadyAttempted string
  | NeverRegistered string
  | NeverPicked string
  | AssertionFailed nat

datatype notification = Picked string | Released string | Lost string

record 'w AgentScheduler =
  \<comment> \<open>runtime and context, as the scheduler reads them\<close>
  attachState :: AttachState
  runtime_connected :: bool
  runtime_clientId :: "string option"
  deltaManager_active :: bool
  capabilities_interactive :: bool
  quorumMembers :: "string list"
  routingContextAttached :: bool
  UnattachedClientId :: string
  consensusRegisterCollection :: "(string \<times> string option) list"
  \<comment> \<open>private fields\<close>
  registeredTasks :: "string set"
  locallyRunnableTasks :: "(string \<times> 'w) list"
  runningTasks :: "string list"
  waitAttachedPending :: bool
  \<comment> \<open>observations\<close>
  writes :: "(string \<times> string option) list"
  emitted :: "notification list"
  errorEvents :: "string list"
  workersStarted :: "'w list"

type_synonym 'w outcome = "sched_error option \<times> 'w AgentScheduler"

text \<open>JavaScript truthiness of a register value: \<^verbatim>\<open>undefined\<close>, \<^verbatim>\<open>null\<close> and
  the empty string are falsy.\<close>

fun truthy :: "string option option \<Rightarrow> bool" where
  "truthy (Some (Some c)) = (c \<noteq> [])"
| "truthy _ = False"

definition has :: "string \<Rightarrow> (string \<times> 'w) list \<Rightarrow> bool" where
  "has k m = (k \<in> fst ` set m)"

definition delete :: "string \<Rightarrow> (string \<times> 'w) list \<Rightarrow> (string \<times> 'w) list" where
  "delete k m = filter (\<lambda>p. fst p \<noteq> k) m"

definition isActive :: "'w AgentScheduler \<Rightarrow> bool" where
  "isActive s =
     (if attachState s = Detached then True
      else if \<not> runtime_connected s then False
      else deltaManager_active s)"

text \<open>The \<^verbatim>\<open>clientId\<close> getter; assertion 0x117 = 279.\<close>

definition clientId_AS :: "'w AgentScheduler \<Rightarrow> sched_error + string" where
  "clientId_AS s =
     (if attachState s = Detached then Inr (UnattachedClientId s)
      else case runtime_clientId s of
             None \<Rightarrow> Inl (AssertionFailed 279)
           | Some c \<Rightarrow> if c = [] then Inl (AssertionFailed 279) else Inr c)"

definition getTaskClientId :: "'w AgentScheduler \<Rightarrow> string \<Rightarrow> string option option" where
  "getTaskClientId s url = map_of (consensusRegisterCollection s) url"

definition writeCore :: "string \<Rightarrow> string option \<Rightarrow> 'w AgentScheduler \<Rightarrow> 'w AgentScheduler" where
  "writeCore key v s = s\<lparr>writes := writes s @ [(key, v)]\<rparr>"

subsection \<open>register\<close>

text \<open>The first loop of \<^verbatim>\<open>register\<close>: the first id already registered, if any.\<close>

fun register_check :: "string list \<Rightarrow> 'w AgentScheduler \<Rightarrow> sched_error option" where
  "register_check [] s = None"
| "register_check (taskUrl # rest) s =
     (if taskUrl \<in> registeredTasks s then Some (AlreadyRegistered taskUrl)
      else register_check rest s)"

text \<open>The second loop: every id is added; the ids whose register entry reads
  \<^verbatim>\<open>undefined\<close> are collected in \<open>unregisteredTasks\<close>.\<close>

fun register_collect ::
  "string list \<Rightarrow> 'w AgentScheduler \<Rightarrow> string list \<Rightarrow> 'w AgentScheduler \<times> string list" where
  "register_collect [] s unregisteredTasks = (s, unregisteredTasks)"
| "register_collect (taskUrl # rest) s unregisteredTasks =
     (let s1 = s\<lparr>registeredTasks := insert taskUrl (registeredTasks s)\<rparr>;
          currentClient = getTaskClientId s1 taskUrl
      in register_collect rest s1
           (if currentClient = None then unregisteredTasks @ [taskUrl] else unregisteredTasks))"

fun write_all :: "string list \<Rightarrow> string option \<Rightarrow> 'w AgentScheduler \<Rightarrow> 'w AgentScheduler" where
  "write_all [] v s = s"
| "write_all (taskUrl # rest) v s = write_all rest v (writeCore taskUrl v s)"

text \<open>\<^verbatim>\<open>registerCore\<close> up to \<^verbatim>\<open>await Promise.all\<close>, and its continuation once the
  writes are acknowledged (assertion 0x11a = 282).\<close>

definition registerCore :: "string list \<Rightarrow> 'w AgentScheduler \<Rightarrow> 'w AgentScheduler" where
  "registerCore taskUrls s = (if taskUrls \<noteq> [] then write_all taskUrls None s else s)"

fun registerCore_resume :: "string list \<Rightarrow> 'w AgentScheduler \<Rightarrow> sched_error option" where
  "registerCore_resume [] s = None"
| "registerCore_resume (taskUrl # rest) s =
     (if getTaskClientId s taskUrl = None then Some (AssertionFailed 282)
      else registerCore_resume rest s)"

definition register :: "string list \<Rightarrow> 'w AgentScheduler \<Rightarrow> 'w outcome" where
  "register taskUrls s =
     (case register_check taskUrls s of
        Some e \<Rightarrow> (Some e, s)
      | None \<Rightarrow>
          (let (s1, unregisteredTasks) = register_collect taskUrls s []
           in (None, registerCore unregisteredTasks s1)))"

subsection \<open>pick\<close>

text \<open>Assertion 0x118 = 280 is the interactive-client check.\<close>

definition pick :: "string \<Rightarrow> 'w \<Rightarrow> 'w AgentScheduler \<Rightarrow> 'w outcome" where
  "pick taskId worker s =
     (if has taskId (locallyRunnableTasks s) then (Some (AlreadyAttempted taskId), s)
      else
        (let s1 = s\<lparr>locallyRunnableTasks := locallyRunnableTasks s @ [(taskId, worker)]\<rparr>
         in if \<not> capabilities_interactive s1 then (Some (AssertionFailed 280), s1)
            else if isActive s1 then
              (let currentClient = getTaskClientId s1 taskId
               in if currentClient = None \<or> currentClient = Some None then
                    (case clientId_AS s1 of
                       Inl e \<Rightarrow> (Some e, s1)
                     | Inr c \<Rightarrow> (None, writeCore taskId (Some c) s1))
                  else (None, s1))
            else (None, s1)))"

subsection \<open>release\<close>

text \<open>The checking loop of \<^verbatim>\<open>release\<close> (assertion 0x119 = 281).\<close>

fun release_check :: "string list \<Rightarrow> bool \<Rightarrow> 'w AgentScheduler \<Rightarrow> sched_error option" where
  "release_check [] active s = None"
| "release_check (taskUrl # rest) active s =
     (if \<not> has taskUrl (locallyRunnableTasks s) then Some (NeverRegistered taskUrl)
      else if \<not> active then Some (AssertionFailed 281)
      else case clientId_AS s of
             Inl e \<Rightarrow> Some e
           | Inr c \<Rightarrow>
               if getTaskClientId s taskUrl \<noteq> Some (Some c) then Some (NeverPicked taskUrl)
               else release_check rest active s)"

fun release_all :: "string list \<Rightarrow> 'w AgentScheduler \<Rightarrow> 'w AgentScheduler" where
  "release_all [] s = s"
| "release_all (taskUrl # rest) s =
     release_all rest
       (writeCore taskUrl None
          (s\<lparr>locallyRunnableTasks := delete taskUrl (locallyRunnableTasks s)\<rparr>))"

definition releaseCore :: "string list \<Rightarrow> 'w AgentScheduler \<Rightarrow> 'w AgentScheduler" where
  "releaseCore taskUrls s = (if taskUrls \<noteq> [] then release_all taskUrls s else s)"

definition release :: "string list \<Rightarrow> 'w AgentScheduler \<Rightarrow> 'w outcome" where
  "release taskUrls s =
     (let active = isActive s
      in case release_check taskUrls active s of
           Some e \<Rightarrow> (Some e, s)
         | None \<Rightarrow> (None, releaseCore taskUrls s))"

definition pickedTasks :: "'w AgentScheduler \<Rightarrow> string list" where
  "pickedTasks s = runningTasks s"

subsection \<open>Reconciliation\<close>

text \<open>\<^verbatim>\<open>clearTasks\<close> is an async function: a failed assertion (0x11b = 283) rejects
  the promise it returns.\<close>

definition clearTasks :: "string list \<Rightarrow> 'w AgentScheduler \<Rightarrow> 'w outcome" where
  "clearTasks taskUrls s =
     (if \<not> isActive s then (Some (AssertionFailed 283), s)
      else (None, write_all taskUrls None s))"

text \<open>The first loop of \<^verbatim>\<open>initializeCore\<close>, over the runnable tasks; evaluating
  \<^verbatim>\<open>this.clientId\<close> may throw.\<close>

fun claim_unclaimed :: "(string \<times> 'w) list \<Rightarrow> 'w AgentScheduler \<Rightarrow> 'w outcome" where
  "claim_unclaimed [] s = (None, s)"
| "claim_unclaimed ((taskUrl, worker) # rest) s =
     (if \<not> truthy (getTaskClientId s taskUrl) then
        (case clientId_AS s of
           Inl e \<Rightarrow> (Some e, s)
         | Inr c \<Rightarrow> claim_unclaimed rest (writeCore taskUrl (Some c) s))
      else claim_unclaimed rest s)"

definition clearCandidates :: "'w AgentScheduler \<Rightarrow> string list" where
  "clearCandidates s =
     filter (\<lambda>taskUrl.
        case getTaskClientId s taskUrl of
          Some (Some currentClient) \<Rightarrow> currentClient \<noteq> [] \<and> currentClient \<notin> set (quorumMembers s)
        | _ \<Rightarrow> False)
       (map fst (consensusRegisterCollection s))"

definition sendErrorEvent :: "string \<Rightarrow> 'w AgentScheduler \<Rightarrow> 'w AgentScheduler" where
  "sendErrorEvent eventName s = s\<lparr>errorEvents := errorEvents s @ [eventName]\<rparr>"

definition initializeCore :: "'w AgentScheduler \<Rightarrow> 'w outcome" where
  "initializeCore s =
     (case claim_unclaimed (locallyRunnableTasks s) s of
        (Some e, s1) \<Rightarrow> (Some e, s1)
      | (None, s1) \<Rightarrow>
          (case clearTasks (clearCandidates s1) s1 of
             (Some e, s2) \<Rightarrow> (None, sendErrorEvent ''AgentScheduler_InitError'' s2)
           | (None, s2) \<Rightarrow> (None, s2)))"

fun emit_all :: "notification list \<Rightarrow> 'w AgentScheduler \<Rightarrow> 'w AgentScheduler" where
  "emit_all [] s = s"
| "emit_all (n # ns) s = emit_all ns (s\<lparr>emitted := emitted s @ [n]\<rparr>)"

definition clearRunningTasks :: "'w AgentScheduler \<Rightarrow> 'w outcome" where
  "clearRunningTasks s =
     (let tasks = runningTasks s;
          s1 = s\<lparr>runningTasks := []\<rparr>
      in if isActive s1 then
           (case initializeCore s1 of
              (Some e, s2) \<Rightarrow> (Some e, s2)
            | (None, s2) \<Rightarrow> (None, emit_all (map Lost tasks) s2))
         else (None, emit_all (map Lost tasks) s1))"

subsection \<open>Listeners installed by initialize\<close>

text \<open>Assertion 0x11d = 285.\<close>

definition onNewTaskAssigned :: "string \<Rightarrow> 'w AgentScheduler \<Rightarrow> 'w outcome" where
  "onNewTaskAssigned key s =
     (if key \<in> set (runningTasks s) then (Some (AssertionFailed 285), s)
      else
        (let s1 = s\<lparr>runningTasks := runningTasks s @ [key]\<rparr>
         in case map_of (locallyRunnableTasks s1) key of
              None \<Rightarrow> (None, sendErrorEvent ''AgentScheduler_UnwantedChange'' s1)
            | Some worker \<Rightarrow>
                (None, s1\<lparr>emitted := emitted s1 @ [Picked key],
                          workersStarted := workersStarted s1 @ [worker]\<rparr>)))"

definition onTaskReassigned :: "string \<Rightarrow> string option \<Rightarrow> 'w AgentScheduler \<Rightarrow> 'w outcome" where
  "onTaskReassigned key currentClient s =
     (let s1 = (if key \<in> set (runningTasks s)
                then s\<lparr>runningTasks := removeAll key (runningTasks s),
                       emitted := emitted s @ [Released key]\<rparr>
                else s)
      in if isActive s1 then
           (case currentClient of
              None \<Rightarrow>
                if has key (locallyRunnableTasks s1) then
                  (case clientId_AS s1 of
                     Inl e \<Rightarrow> (Some e, s1)
                   | Inr c \<Rightarrow> (None, writeCore key (Some c) s1))
                else (None, s1)
            | Some c \<Rightarrow>
                if c \<notin> set (quorumMembers s1) then (None, writeCore key None s1)
                else (None, s1))
         else (None, s1))"

definition on_atomicChanged :: "string \<Rightarrow> string option \<Rightarrow> 'w AgentScheduler \<Rightarrow> 'w outcome" where
  "on_atomicChanged key currentClient s =
     (if isActive s then
        (case clientId_AS s of
           Inl e \<Rightarrow> (Some e, s)
         | Inr c \<Rightarrow>
             if currentClient = Some c then onNewTaskAssigned key s
             else onTaskReassigned key currentClient s)
      else onTaskReassigned key currentClient s)"




definition on_disconnected :: "'w AgentScheduler \<Rightarrow> 'w outcome" where
  "on_disconnected s = (if attachState s \<noteq> Detached then clearRunningTasks s else (None, s))"

text \<open>The callback given to \<^verbatim>\<open>waitAttached().then\<close>, with its \<^verbatim>\<open>catch\<close>.\<close>

definition on_attached :: "'w AgentScheduler \<Rightarrow> 'w outcome" where
  "on_attached s =
     (case clearRunningTasks s of
        (Some e, s1) \<Rightarrow> (None, sendErrorEvent ''AgentScheduler_clearRunningTasks'' s1)
      | (None, s1) \<Rightarrow> (None, s1))"

definition initialize :: "'w AgentScheduler \<Rightarrow> 'w outcome" where
  "initialize s =
     (case (if isActive s then initializeCore s else (None, s)) of
        (Some e, s1) \<Rightarrow> (Some e, s1)
      | (None, s1) \<Rightarrow> (None, s1\<lparr>waitAttachedPending := (attachState s1 = Detached)\<rparr>))"

subsection \<open>Events of the environment\<close>

text \<open>
  The runtime and the register change what the scheduler reads before they notify it:
  the register's view holds the accepted value when \<^verbatim>\<open>atomicChanged\<close> fires,
  \<^verbatim>\<open>runtime.connected\<close> is false when \<^verbatim>\<open>disconnected\<close> fires, the attach state is
  \<open>Attached\<close> when \<^verbatim>\<open>waitAttached()\<close> resolves.
\<close>

fun register_store :: "string \<Rightarrow> string option \<Rightarrow> (string \<times> string option) list \<Rightarrow> (string \<times> string option) list" where
  "register_store key v [] = [(key, v)]"
| "register_store key v (p # ps) = (if fst p = key then (key, v) # ps else p # register_store key v ps)"

definition atomicChanged :: "string \<Rightarrow> string option \<Rightarrow> 'w AgentScheduler \<Rightarrow> 'w outcome" where
  "atomicChanged key v s =
     on_atomicChanged key v
       (s\<lparr>consensusRegisterCollection := register_store key v (consensusRegisterCollection s)\<rparr>)"

definition disconnected :: "'w AgentScheduler \<Rightarrow> 'w outcome" where
  "disconnected s = on_disconnected (s\<lparr>runtime_connected := False\<rparr>)"


definition attached :: "'w AgentScheduler \<Rightarrow> 'w outcome" where
  "attached s =
     (if waitAttachedPending s
      then on_attached (s\<lparr>attachState := Attached, routingContextAttached := True,
                          waitAttachedPending := False\<rparr>)
      else (None, s\<lparr>attachState := Attached, routingContextAttached := True\<rparr>))"


subsection \<open>Predicates and scenarios used below\<close>

text \<open>What \<^verbatim>\<open>release\<close> checks of one id: the id is in \<open>locallyRunnableTasks\<close>, the
  replica is active, and the register names the replica's own client id as its owner.\<close>

definition releasable :: "'w AgentScheduler \<Rightarrow> string \<Rightarrow> bool" where
  "releasable s taskUrl =
     (has taskUrl (locallyRunnableTasks s) \<and> isActive s
      \<and> (case clientId_AS s of
            Inl e \<Rightarrow> False
          | Inr c \<Rightarrow> getTaskClientId s taskUrl = Some (Some c)))"

definition same_tasks :: "'w AgentScheduler \<Rightarrow> 'w AgentScheduler \<Rightarrow> bool" where
  "same_tasks s s' =
     (runningTasks s' = runningTasks s \<and> registeredTasks s' = registeredTasks s
      \<and> locallyRunnableTasks s' = locallyRunnableTasks s)"

text \<open>A scheduler of a data store that is still detached, inside a container connected as
  \<open>A\<close>; and a scheduler of an attached data store in the same container.  Workers are
  numbers.\<close>

definition sched_detached :: "nat AgentScheduler" where
  "sched_detached =
     \<lparr>attachState = Detached, runtime_connected = True, runtime_clientId = Some ''A'',
      deltaManager_active = True, capabilities_interactive = True, quorumMembers = [''A''],
      routingContextAttached = False, UnattachedClientId = ''uuid_unattached'',
      consensusRegisterCollection = [], registeredTasks = {}, locallyRunnableTasks = [],
      runningTasks = [], waitAttachedPending = False, writes = [], emitted = [],
      errorEvents = [], workersStarted = []\<rparr>"

definition sched_live :: "nat AgentScheduler" where
  "sched_live =
     \<lparr>attachState = Attached, runtime_connected = True, runtime_clientId = Some ''A'',
      deltaManager_active = True, capabilities_interactive = True, quorumMembers = [''A''],
      routingContextAttached = True, UnattachedClientId = ''uuid_unattached'',
      consensusRegisterCollection = [], registeredTasks = {}, locallyRunnableTasks = [],
      runningTasks = [], waitAttachedPending = False, writes = [], emitted = [],
      errorEvents = [], workersStarted = []\<rparr>"

text \<open>The detached scheduler after \<^verbatim>\<open>initialize\<close>, \<^verbatim>\<open>pick("t", 1)\<close> and the
  register's acceptance of the claim, and the same replica at the moment it has become
  attached; the live one after \<^verbatim>\<open>pick("t", 1)\<close> and the
  acceptance, without any \<^verbatim>\<open>register\<close> call; the latter after losing its
  connection; a live scheduler of a non-interactive client; a live one whose runtime holds
  no client id; a live one whose register already holds the unclaimed task \<open>b\<close>.\<close>

definition sched_detached_running :: "nat AgentScheduler" where
  "sched_detached_running =
     snd (atomicChanged ''t'' (Some ''uuid_unattached'')
            (snd (pick ''t'' 1 (snd (initialize sched_detached)))))"

definition sched_just_attached :: "nat AgentScheduler" where
  "sched_just_attached =
     sched_detached_running\<lparr>attachState := Attached, routingContextAttached := True,
                             waitAttachedPending := False\<rparr>"

definition sched_live_picked :: "nat AgentScheduler" where
  "sched_live_picked = snd (atomicChanged ''t'' (Some ''A'') (snd (pick ''t'' 1 sched_live)))"

definition sched_live_dropped :: "nat AgentScheduler" where
  "sched_live_dropped = sched_live_picked\<lparr>runtime_connected := False\<rparr>"

definition sched_non_interactive :: "nat AgentScheduler" where
  "sched_non_interactive = sched_live\<lparr>capabilities_interactive := False\<rparr>"

definition sched_live_anonymous :: "nat AgentScheduler" where
  "sched_live_anonymous = sched_live\<lparr>runtime_clientId := None\<rparr>"

definition sched_live_b :: "nat AgentScheduler" where
  "sched_live_b = sched_live\<lparr>consensusRegisterCollection := [(''b'', None)]\<rparr>"

subsection \<open>Several replicas on one log\<close>






















subsection \<open>The invariant of the reachable worlds\<close>


definition settled :: "nat AgentScheduler \<Rightarrow> bool" where
  "settled r =
     (attachState r = Attached \<and> routingContextAttached r \<and> writes r = []
      \<and> (runtime_connected r \<longrightarrow> (\<exists>c. runtime_clientId r = Some c \<and> c \<noteq> [])))"
















section \<open>Properties of SummaryManager\<close>

subsection \<open>Field-level facts about the methods\<close>

lemma lifecycle_inv_irrelevant:
  "lifecycle_inv (perform e s) = lifecycle_inv s"
  "lifecycle_inv (s\<lparr>electedClientId := x\<rparr>) = lifecycle_inv s"
  "lifecycle_inv (s\<lparr>connected := c\<rparr>) = lifecycle_inv s"
  "lifecycle_inv (s\<lparr>clientId := ci\<rparr>) = lifecycle_inv s"
  "lifecycle_inv (s\<lparr>latestClientId := ci\<rparr>) = lifecycle_inv s"
  "lifecycle_inv (s\<lparr>summarizerCount := n\<rparr>) = lifecycle_inv s"
  "lifecycle_inv (s\<lparr>hasSummarizersInQuorum := b\<rparr>) = lifecycle_inv s"
  "lifecycle_inv (s\<lparr>electedClient := ec\<rparr>) = lifecycle_inv s"
  "lifecycle_inv (s\<lparr>hasLoggedTelemetry := b\<rparr>) = lifecycle_inv s"
  "lifecycle_inv (s\<lparr>lastSummaryAckSeqForClient := i\<rparr>) = lifecycle_inv s"
  "lifecycle_inv (s\<lparr>opsHandlerAttached := b\<rparr>) = lifecycle_inv s"
  "lifecycle_inv (s\<lparr>opsUntilFirstConnect := i\<rparr>) = lifecycle_inv s"
  "lifecycle_inv (s\<lparr>initialDelayTimer := t\<rparr>) = lifecycle_inv s"
  "lifecycle_inv (s\<lparr>disposed := b\<rparr>) = lifecycle_inv s"
  by (simp_all add: lifecycle_inv_def perform_def)

lemma quiet_irrelevant:
  "quiet (perform e s) = quiet s"
  "quiet (s\<lparr>electedClientId := x\<rparr>) = quiet s"
  "quiet (s\<lparr>runningSummarizer := r\<rparr>) = quiet s"
  "quiet (s\<lparr>listening := l\<rparr>) = quiet s"
  by (simp_all add: quiet_def perform_def)

lemma state_irrelevant:
  "state (perform e s) = state s"
  "state (s\<lparr>electedClientId := x\<rparr>) = state s"
  by (simp_all add: perform_def)

lemma setClientId_fields:
  "state (setClientId cid s) = state s"
  "stateLog (setClientId cid s) = stateLog s"
  "disposed (setClientId cid s) = disposed s"
  "initialDelayTimer (setClientId cid s) = initialDelayTimer s"
  by (simp_all add: setClientId_def Let_def perform_def split: option.split)

lemma setClientId_inv: "lifecycle_inv (setClientId cid s) = lifecycle_inv s"
  by (simp add: setClientId_def Let_def lifecycle_inv_irrelevant split: option.split)

subsection \<open>The lifecycle invariant holds in every reachable state\<close>

lemma start_inv: "quiet s \<Longrightarrow> lifecycle_inv (start s)"
  by (simp add: quiet_def lifecycle_inv_def start_def getDelay_def createSummarizer_def
      raiseContainerWarning_def perform_def setState_def Let_def)

lemma setState_Off_inv: "quiet s \<Longrightarrow> lifecycle_inv (setState Off s)"
  by (simp add: quiet_def lifecycle_inv_def setState_def)

lemma tryRestart_inv: "quiet s \<Longrightarrow> lifecycle_inv (tryRestart s)"
  by (simp add: tryRestart_def start_inv setState_Off_inv
      split: ShouldSummarizeState.split bool.split)

lemma stop_inv: "lifecycle_inv s \<Longrightarrow> state s = Running \<Longrightarrow> lifecycle_inv (stop r s)"
  by (auto simp add: lifecycle_inv_def stop_def perform_def setState_def Let_def)

lemma inv_Off_quiet: "lifecycle_inv s \<Longrightarrow> state s = Off \<Longrightarrow> quiet s"
  by (auto simp: lifecycle_inv_def quiet_def)

lemma refreshSummarizer_inv: "lifecycle_inv s \<Longrightarrow> lifecycle_inv (refreshSummarizer s)"
  by (cases "state s")
     (simp_all add: refreshSummarizer_def Let_def lifecycle_inv_irrelevant state_irrelevant
        quiet_irrelevant start_inv stop_inv inv_Off_quiet
        split: ShouldSummarizeState.split bool.split)

lemma run_inv: "quiet s \<Longrightarrow> lifecycle_inv (run sm s)"
  by (simp add: run_def Let_def stop_def quiet_def lifecycle_inv_def perform_def setState_def
      split: ShouldSummarizeState.split)

lemma construct_inv: "lifecycle_inv (construct a)"
proof -
  have "lifecycle_inv s" if "state s = Off" "pendingCreate s = []" "pendingRun s = []" for s
    using that by (simp add: lifecycle_inv_def)
  then show ?thesis
    by (simp add: construct_def Let_def refreshSummarizer_inv setClientId_inv)
qed

lemma resumeCreate_inv:
  assumes "lifecycle_inv s" "resumeCreate s k = Some s'"
    and "\<And>t. quiet t \<Longrightarrow> lifecycle_inv (k t)"
  shows "lifecycle_inv s'"
proof -
  from assms(2) obtain p rest
    where p: "pendingCreate s = p # rest" "s' = k (s\<lparr>pendingCreate := rest\<rparr>)"
    by (auto simp: resumeCreate_def split: list.splits if_splits)
  with assms(1) have "quiet (s\<lparr>pendingCreate := rest\<rparr>)"
    by (auto simp: lifecycle_inv_def quiet_def)
  with assms(3) p show ?thesis by simp
qed

lemma step_inv:
  assumes "lifecycle_inv s" "step s e = Some s'"
  shows "lifecycle_inv s'"
proof (cases e)
  case (LoaderResponse r)
  show ?thesis
  proof (cases "createSummarizer_result r")
    case None
    with assms LoaderResponse show ?thesis
      by (auto elim!: resumeCreate_inv simp: start_onRejected_def tryRestart_inv quiet_irrelevant)
  next
    case (Some sm)
    with assms LoaderResponse show ?thesis
      by (auto elim!: resumeCreate_inv simp: start_onFulfilled_def run_inv quiet_irrelevant)
  qed
next
  case LoaderError
  with assms show ?thesis
    by (auto elim!: resumeCreate_inv simp: start_onRejected_def tryRestart_inv quiet_irrelevant)
next
  case SummarizerExited
  with assms obtain sm rest where p: "pendingRun s = sm # rest"
    "s' = run_finally (s\<lparr>pendingRun := rest\<rparr>)"
    by (auto split: list.splits)
  with assms(1) have "quiet (s\<lparr>pendingRun := rest\<rparr>)"
    by (auto simp: lifecycle_inv_def quiet_def)
  with p show ?thesis by (simp add: run_finally_def tryRestart_inv quiet_irrelevant)
qed (use assms in \<open>auto simp: setConnected_def setDisconnected_def updateConnected_def
      refreshSummarizer_inv setClientId_inv lifecycle_inv_irrelevant dispose_def
      on_electedChange_def on_summarizerChange_def opsUntilFirstConnectHandler_def
      on_summaryOp_def on_summaryAck_def raiseContainerWarning_def
      Let_def split: option.splits if_splits\<close>)

lemma run_events_inv: "lifecycle_inv s \<Longrightarrow> run_events s es = Some s' \<Longrightarrow> lifecycle_inv s'"
  by (induction es arbitrary: s) (auto split: option.splits dest: step_inv)

lemma run_events_append:
  "run_events s (es @ es') = (case run_events s es of None \<Rightarrow> None | Some t \<Rightarrow> run_events t es')"
  by (induction es arbitrary: s) (auto split: option.splits)

subsection \<open>Disabled\<close>

lemma refreshSummarizer_Disabled:
  "state s = Disabled \<Longrightarrow>
     state (refreshSummarizer s) = Disabled \<and> stateLog (refreshSummarizer s) = stateLog s"
  by (simp add: refreshSummarizer_def Let_def perform_def)

lemma step_Disabled:
  assumes "lifecycle_inv s" "state s = Disabled" "step s e = Some s'"
  shows "state s' = Disabled \<and> stateLog s' = stateLog s"
proof -
  from assms(1,2) have q: "pendingCreate s = []" "pendingRun s = []"
    by (auto simp: lifecycle_inv_def)
  show ?thesis
  proof (cases e)
    case (LoaderResponse r)
    with assms(3) q show ?thesis by (simp add: resumeCreate_def)
  next
    case LoaderError
    with assms(3) q show ?thesis by (simp add: resumeCreate_def)
  next
    case SummarizerExited
    with assms(3) q show ?thesis by simp
  qed (use assms(2,3) in \<open>auto simp: setConnected_def setDisconnected_def updateConnected_def
      refreshSummarizer_Disabled setClientId_fields dispose_def on_electedChange_def
      on_summarizerChange_def opsUntilFirstConnectHandler_def on_summaryOp_def on_summaryAck_def
      raiseContainerWarning_def perform_def Let_def split: option.splits if_splits\<close>)
qed

lemma run_events_Disabled:
  "lifecycle_inv s \<Longrightarrow> state s = Disabled \<Longrightarrow> run_events s es = Some s' \<Longrightarrow>
     state s' = Disabled \<and> stateLog s' = stateLog s"
proof (induction es arbitrary: s)
  case Nil
  then show ?case by simp
next
  case (Cons e es)
  from Cons.prems(3) obtain t where t: "step s e = Some t" "run_events t es = Some s'"
    by (auto split: option.splits)
  from step_Disabled[OF Cons.prems(1,2) t(1)] step_inv[OF Cons.prems(1) t(1)]
    Cons.IH[OF _ _ t(2)]
  show ?case by simp
qed

lemma start_Disabled:
  "lifecycle_inv s \<Longrightarrow> state s = Disabled \<Longrightarrow> state (start s) = Disabled"
  by (auto simp: lifecycle_inv_def start_def setState_def perform_def)

text \<open>
  C2.  \<^verbatim>\<open>getShouldSummarizeState()\<close> reports \<open>shouldSummarize\<close> true exactly when the
  manager is connected, its client id equals the elected client id and it is not disposed.
  Otherwise the result is \<open>ShouldNotSummarize\<close> with a single stop reason: not connected
  gives \<open>ParentNotConnected\<close>; connected but not the elected client gives
  \<open>ParentShouldNotSummarize\<close>; connected, elected and disposed gives \<open>Disposed\<close>.
\<close>

theorem getShouldSummarizeState_spec:
  "(shouldSummarize (getShouldSummarizeState s)
      = (connected s \<and> clientId s = electedClientId s \<and> \<not> disposed s))
   \<and> (\<not> shouldSummarize (getShouldSummarizeState s) \<longrightarrow>
        getShouldSummarizeState s =
          ShouldNotSummarize
            (if \<not> connected s then ParentNotConnected
             else if clientId s \<noteq> electedClientId s then ParentShouldNotSummarize
             else Disposed))"
  by (simp add: getShouldSummarizeState_def summarizer_def)

theorem getShouldSummarizeState_spec_witness:
  "\<not> shouldSummarize (getShouldSummarizeState (construct args_enabled))
   \<and> getShouldSummarizeState (construct args_enabled) = ShouldNotSummarize ParentNotConnected
   \<and> shouldSummarize
        (getShouldSummarizeState (setConnected ''A'' (construct args_throttled_elected)))"
proof -
  have c: "\<not> connected (construct args_enabled)"
    "connected (setConnected ''A'' (construct args_throttled_elected))"
    "clientId (setConnected ''A'' (construct args_throttled_elected)) = Some ''A''"
    "electedClientId (setConnected ''A'' (construct args_throttled_elected)) = Some ''A''"
    "\<not> disposed (setConnected ''A'' (construct args_throttled_elected))"
    by code_simp+
  from getShouldSummarizeState_spec[of "construct args_enabled"]
    getShouldSummarizeState_spec[of "setConnected ''A'' (construct args_throttled_elected)"] c
  show ?thesis by simp
qed

text \<open>
  C3.  \<open>Disabled\<close> is absorbing.  In every state \<open>s\<close> the manager can reach from its
  constructor in which \<open>state\<close> is \<open>Disabled\<close>, whatever events follow (connection changes,
  election and quorum changes, summary ops and acks, the timer, disposal, and the settling
  of any promise), the state stays \<open>Disabled\<close> and no assignment to \<open>state\<close> is executed at
  all.  The private methods \<^verbatim>\<open>start\<close>, \<^verbatim>\<open>stop\<close> and \<^verbatim>\<open>tryRestart\<close> run only
  inside these handlers: \<^verbatim>\<open>refreshSummarizer\<close> calls \<^verbatim>\<open>start\<close> only in \<open>Off\<close> and
  \<^verbatim>\<open>stop\<close> only in \<open>Running\<close>, and the promise callbacks that call \<^verbatim>\<open>run\<close> and
  \<^verbatim>\<open>tryRestart\<close> have no promise to fire from once the manager is \<open>Disabled\<close>.  A
  further call of \<^verbatim>\<open>start\<close> in such a state would again choose \<open>Disabled\<close>.
\<close>

theorem Disabled_absorbing:
  assumes "run_events (construct a) es = Some s"
    and "state s = Disabled"
    and "run_events s es' = Some s'"
  shows "state s' = Disabled \<and> stateLog s' = stateLog s \<and> state (start s') = Disabled"
proof -
  have i: "lifecycle_inv s"
    using run_events_inv[OF construct_inv assms(1)] .
  have d: "state s' = Disabled \<and> stateLog s' = stateLog s"
    using run_events_Disabled[OF i assms(2,3)] .
  have "lifecycle_inv s'"
    using run_events_inv[OF i assms(3)] .
  with d show ?thesis
    by (simp add: start_Disabled)
qed

theorem Disabled_absorbing_witness:
  "state (construct args_disabled) = Disabled
   \<and> map_option state (run_events (construct args_disabled) events_after_disabled)
       = Some Disabled
   \<and> map_option stateLog (run_events (construct args_disabled) events_after_disabled)
       = Some (stateLog (construct args_disabled))"
proof -
  have h1: "run_events (construct args_disabled) [] = Some (construct args_disabled)"
    by simp
  have h2: "state (construct args_disabled) = Disabled"
    by code_simp
  have "run_events (construct args_disabled) events_after_disabled \<noteq> None"
    by code_simp
  then obtain s' where h3: "run_events (construct args_disabled) events_after_disabled = Some s'"
    by auto
  from Disabled_absorbing[OF h1 h2 h3] h2 h3 show ?thesis
    by simp
qed

subsection \<open>Disposal\<close>

lemma disposed_ShouldNotSummarize:
  "disposed s \<Longrightarrow> \<exists>r. getShouldSummarizeState s = ShouldNotSummarize r"
  by (simp add: getShouldSummarizeState_def)

lemma refreshSummarizer_disposed:
  assumes "disposed s" "state s \<noteq> Running"
  shows "state (refreshSummarizer s) = state s \<and> stateLog (refreshSummarizer s) = stateLog s
         \<and> disposed (refreshSummarizer s)
         \<and> initialDelayTimer (refreshSummarizer s) = initialDelayTimer s"
proof -
  let ?s1 = "if map_option tc_clientId (electedClient s) \<noteq> electedClientId s
             then perform (EmitSummarizer (map_option tc_clientId (electedClient s)))
                    (s\<lparr>electedClientId := map_option tc_clientId (electedClient s)\<rparr>)
             else s"
  have d: "disposed ?s1" using assms(1) by (simp add: perform_def)
  then obtain r where r: "getShouldSummarizeState ?s1 = ShouldNotSummarize r"
    using disposed_ShouldNotSummarize by blast
  have st: "state ?s1 = state s" "stateLog ?s1 = stateLog s"
    "initialDelayTimer ?s1 = initialDelayTimer s"
    by (simp_all add: perform_def)
  have "refreshSummarizer s = ?s1"
    using assms(2) r st(1) by (cases "state s") (simp_all add: refreshSummarizer_def Let_def)
  with d st show ?thesis by simp
qed

lemma tryRestart_disposed: "disposed s \<Longrightarrow> tryRestart s = setState Off s"
  using disposed_ShouldNotSummarize[of s] by (auto simp: tryRestart_def)

lemma run_disposed:
  assumes "disposed s"
  shows "state (run sm s) = Stopping \<and> stateLog (run sm s) = stateLog s @ [Running, Stopping]
         \<and> disposed (run sm s) \<and> initialDelayTimer (run sm s) = initialDelayTimer s"
proof -
  let ?s3 = "(perform (SummarizerRun sm (latestClientId s))
               ((setState Running s)\<lparr>runningSummarizer := Some sm\<rparr>))
             \<lparr>pendingRun := pendingRun s @ [sm]\<rparr>"
  have "disposed ?s3" using assms by (simp add: perform_def setState_def)
  then obtain r where r: "getShouldSummarizeState ?s3 = ShouldNotSummarize r"
    using disposed_ShouldNotSummarize by blast
  have "run sm s = stop r ?s3"
    using r by (simp add: run_def Let_def setState_def perform_def)
  then show ?thesis
    using assms by (simp add: stop_def Let_def setState_def perform_def)
qed

lemma step_disposed_at_rest:
  assumes "disposed_at_rest n s" "step s e = Some s'"
  shows "disposed_at_rest n s'"
proof -
  from assms(1) have d: "disposed s" "state s \<noteq> Running" "initialDelayTimer s \<noteq> TimerPending"
    "set (drop n (stateLog s)) \<subseteq> {Running, Stopping, Off}"
    by (simp_all add: disposed_at_rest_def)
  have restart: "disposed_at_rest n (tryRestart t)"
    if "disposed t" "initialDelayTimer t = initialDelayTimer s" "stateLog t = stateLog s" for t
    using that d
    by (auto simp: tryRestart_disposed setState_def disposed_at_rest_def dest: in_set_dropD)
  have fulfilled: "disposed_at_rest n (run sm t)"
    if "disposed t" "initialDelayTimer t = initialDelayTimer s" "stateLog t = stateLog s" for t sm
    using run_disposed[OF that(1), of sm] that d
    by (auto simp: disposed_at_rest_def dest: in_set_dropD)
  have refresh: "disposed_at_rest n (refreshSummarizer t)"
    if "disposed t" "initialDelayTimer t = initialDelayTimer s" "stateLog t = stateLog s"
       "state t = state s" for t
    using refreshSummarizer_disposed[of t] that d by (simp add: disposed_at_rest_def)
  show ?thesis
  proof (cases e)
    case (SetConnected cid)
    with assms(2) d assms(1) show ?thesis
      by (auto simp: setConnected_def updateConnected_def setClientId_fields intro!: refresh)
  next
    case SetDisconnected
    with assms(2) d assms(1) show ?thesis
      by (auto simp: setDisconnected_def updateConnected_def setClientId_fields intro!: refresh)
  next
    case Dispose
    with assms(2) d show ?thesis
      by (auto simp: dispose_def perform_def disposed_at_rest_def)
  next
    case (ElectedChange c)
    with assms(2) d show ?thesis
      by (auto simp: on_electedChange_def Let_def intro!: refresh split: option.splits)
  next
    case (SummarizerChange c)
    let ?t = "s\<lparr>summarizerCount := c, hasSummarizersInQuorum := 0 < c\<rparr>"
    have "s' = refreshSummarizer ?t \<or> s' = ?t"
      using assms(2) SummarizerChange by (auto simp: on_summarizerChange_def Let_def)
    moreover have "disposed_at_rest n ?t"
      using assms(1) by (simp add: disposed_at_rest_def)
    moreover have "disposed_at_rest n (refreshSummarizer ?t)"
      using d by (intro refresh) simp_all
    ultimately show ?thesis by auto
  next
    case (AddMember c q)
    with assms(2) d show ?thesis
      by (auto simp: opsUntilFirstConnectHandler_def disposed_at_rest_def split: if_splits)
  next
    case (SummaryOp q)
    with assms(2) d show ?thesis
      by (auto simp: on_summaryOp_def Let_def perform_def disposed_at_rest_def split: if_splits)
  next
    case (SummaryAck q)
    with assms(2) d show ?thesis
      by (auto simp: on_summaryAck_def disposed_at_rest_def)
  next
    case InitialDelayElapsed
    with assms(2) d show ?thesis
      by (auto split: if_splits)
  next
    case (LoaderResponse r)
    with assms(2) d show ?thesis
      by (cases "createSummarizer_result r")
         (auto simp: resumeCreate_def start_onFulfilled_def start_onRejected_def perform_def
            intro!: restart fulfilled split: list.splits if_splits)
  next
    case LoaderError
    with assms(2) d show ?thesis
      by (auto simp: resumeCreate_def start_onRejected_def perform_def
            intro!: restart split: list.splits if_splits)
  next
    case SummarizerExited
    with assms(2) d show ?thesis
      by (auto simp: run_finally_def intro!: restart split: list.splits)
  next
    case (SummarizingError m l)
    with assms(2) d show ?thesis
      by (auto simp: raiseContainerWarning_def perform_def disposed_at_rest_def split: if_splits)
  qed
qed

lemma run_events_disposed_at_rest:
  "disposed_at_rest n s \<Longrightarrow> run_events s es = Some s' \<Longrightarrow> disposed_at_rest n s'"
  by (induction es arbitrary: s) (auto split: option.splits dest: step_disposed_at_rest)

lemma getShouldSummarizeState_reads:
  assumes "connected t = connected s" "clientId t = clientId s"
    "electedClientId t = electedClientId s" "disposed t = disposed s"
    "summarizerCount t = summarizerCount s"
  shows "getShouldSummarizeState t = getShouldSummarizeState s"
  using assms by (simp add: getShouldSummarizeState_def summarizer_def)

lemma run_disposed_effects:
  assumes "disposed s"
  shows "runningSummarizer (run sm s) = Some sm
         \<and> effects (run sm s) =
             effects s @ [SummarizerRun sm (latestClientId s),
                          SummarizerStop sm (stopReason (getShouldSummarizeState s))]"
proof -
  let ?s3 = "(perform (SummarizerRun sm (latestClientId s))
               ((setState Running s)\<lparr>runningSummarizer := Some sm\<rparr>))
             \<lparr>pendingRun := pendingRun s @ [sm]\<rparr>"
  have e: "getShouldSummarizeState ?s3 = getShouldSummarizeState s"
    by (rule getShouldSummarizeState_reads) (simp_all add: perform_def setState_def)
  obtain r where r: "getShouldSummarizeState s = ShouldNotSummarize r"
    using disposed_ShouldNotSummarize[OF assms] by blast
  have "run sm s = stop r ?s3"
    using r e by (simp add: run_def Let_def setState_def perform_def)
  then show ?thesis
    using r by (simp add: stop_def Let_def setState_def perform_def)
qed

text \<open>
  C8, as amended.  When \<^verbatim>\<open>dispose()\<close> is called in \<open>Starting\<close>, the initial-delay timer
  is cleared and the manager is marked disposed; the creation in flight stays in flight.
  Whatever events follow, the manager is never in \<open>Running\<close> once a handler has completed,
  its timer is never running again, and \<^verbatim>\<open>start\<close> is never called again: the only
  values assigned to \<open>state\<close> after the disposal are \<open>Running\<close>, \<open>Stopping\<close> and \<open>Off\<close>.
  If a creation then succeeds with summarizer \<open>sm\<close>, the handler assigns \<open>Running\<close> and then
  \<open>Stopping\<close>, holds \<open>sm\<close> as running summarizer, and makes exactly two calls: \<open>sm\<close>'s
  \<^verbatim>\<open>run\<close> with the latest client id, then \<open>sm\<close>'s \<^verbatim>\<open>stop\<close> with the stop reason of
  \<^verbatim>\<open>getShouldSummarizeState\<close>.  If the creation fails, the manager settles to \<open>Off\<close>
  having only logged the error.
\<close>

theorem dispose_while_Starting:
  assumes "state s = Starting"
    and "run_events (dispose s) es = Some s'"
  shows "TimerClear \<in> set (effects (dispose s)) \<and> initialDelayTimer s' \<noteq> TimerPending
         \<and> pendingCreate (dispose s) = pendingCreate s
         \<and> disposed s' \<and> state s' \<noteq> Running
         \<and> set (drop (length (stateLog s)) (stateLog s')) \<subseteq> {Running, Stopping, Off}
         \<and> (createSummarizer_result r = Some sm \<and> step s' (LoaderResponse r) = Some t \<longrightarrow>
              state t = Stopping \<and> stateLog t = stateLog s' @ [Running, Stopping]
              \<and> runningSummarizer t = Some sm
              \<and> effects t =
                  effects s' @ [SummarizerRun sm (latestClientId s'),
                                SummarizerStop sm (stopReason (getShouldSummarizeState s'))])
         \<and> (step s' LoaderError = Some t' \<longrightarrow>
              state t' = Off \<and> stateLog t' = stateLog s' @ [Off]
              \<and> effects t' = effects s' @ [ErrorEvent ''CreateSummarizerError''])"
proof -
  have "disposed_at_rest (length (stateLog s)) (dispose s)"
    using assms(1) by (simp add: disposed_at_rest_def dispose_def perform_def)
  from run_events_disposed_at_rest[OF this assms(2)]
  have r: "disposed_at_rest (length (stateLog s)) s'" .
  then have d: "disposed s'" by (simp add: disposed_at_rest_def)
  have ok: "state t = Stopping \<and> stateLog t = stateLog s' @ [Running, Stopping]
              \<and> runningSummarizer t = Some sm
              \<and> effects t =
                  effects s' @ [SummarizerRun sm (latestClientId s'),
                                SummarizerStop sm (stopReason (getShouldSummarizeState s'))]"
    if "createSummarizer_result r = Some sm \<and> step s' (LoaderResponse r) = Some t"
  proof -
    from that obtain p rest where p: "pendingCreate s' = p # rest"
      and t: "t = run sm (s'\<lparr>pendingCreate := rest, listening := listening s' @ [sm]\<rparr>)"
      by (auto simp: resumeCreate_def start_onFulfilled_def split: list.splits if_splits)
    let ?u = "s'\<lparr>pendingCreate := rest, listening := listening s' @ [sm]\<rparr>"
    have du: "disposed ?u" using d by simp
    have g: "getShouldSummarizeState ?u = getShouldSummarizeState s'"
      by (rule getShouldSummarizeState_reads) simp_all
    from run_disposed[OF du, of sm] run_disposed_effects[OF du, of sm] g t
    show ?thesis by simp
  qed
  have failed: "state t' = Off \<and> stateLog t' = stateLog s' @ [Off]
              \<and> effects t' = effects s' @ [ErrorEvent ''CreateSummarizerError'']"
    if "step s' LoaderError = Some t'"
  proof -
    from that obtain p rest where p: "pendingCreate s' = p # rest"
      and t: "t' = start_onRejected (s'\<lparr>pendingCreate := rest\<rparr>)"
      by (auto simp: resumeCreate_def split: list.splits if_splits)
    have "disposed (perform (ErrorEvent ''CreateSummarizerError'') (s'\<lparr>pendingCreate := rest\<rparr>))"
      using d by (simp add: perform_def)
    from tryRestart_disposed[OF this] t show ?thesis
      by (simp add: start_onRejected_def setState_def perform_def)
  qed
  have base: "TimerClear \<in> set (effects (dispose s)) \<and> initialDelayTimer s' \<noteq> TimerPending
         \<and> pendingCreate (dispose s) = pendingCreate s
         \<and> disposed s' \<and> state s' \<noteq> Running
         \<and> set (drop (length (stateLog s)) (stateLog s')) \<subseteq> {Running, Stopping, Off}"
    using r by (simp add: disposed_at_rest_def dispose_def perform_def)
  from base ok failed show ?thesis
    by blast
qed

theorem dispose_while_Starting_witness:
  "map_option state (run_events (construct args_enabled) events_until_Starting) = Some Starting
   \<and> map_option state
        (run_events (construct args_enabled)
           (events_until_Starting @ [Dispose, SetDisconnected, LoaderResponse response_ok]))
       = Some Stopping
   \<and> map_option (\<lambda>u. drop 4 (effects u))
        (run_events (construct args_enabled)
           (events_until_Starting @ [Dispose, SetDisconnected, LoaderResponse response_ok]))
       = Some [SummarizerRun 7 (Some ''A''), SummarizerStop 7 ParentNotConnected]
   \<and> map_option state
        (run_events (construct args_enabled)
           (events_until_Starting @ [Dispose, SetDisconnected, LoaderError]))
       = Some Off"
proof -
  have a: "map_option state (run_events (construct args_enabled) events_until_Starting)
           = Some Starting"
    by code_simp
  then obtain s where s: "run_events (construct args_enabled) events_until_Starting = Some s"
    and st: "state s = Starting"
    by auto
  have "map_option (\<lambda>u. (latestClientId u, getShouldSummarizeState u, length (effects u)))
          (run_events (construct args_enabled)
             (events_until_Starting @ [Dispose, SetDisconnected]))
        = Some (Some ''A'', ShouldNotSummarize ParentNotConnected, 4)"
    by code_simp
  then obtain s' where s': "run_events (construct args_enabled)
      (events_until_Starting @ [Dispose, SetDisconnected]) = Some s'"
    and f: "latestClientId s' = Some ''A''"
      "getShouldSummarizeState s' = ShouldNotSummarize ParentNotConnected"
      "length (effects s') = 4"
    by auto
  from s s' have mid: "run_events (dispose s) [SetDisconnected] = Some s'"
    by (simp add: run_events_append)
  have "map_option state
          (run_events (construct args_enabled)
             (events_until_Starting @ [Dispose, SetDisconnected, LoaderResponse response_ok]))
        \<noteq> None"
    "map_option state
          (run_events (construct args_enabled)
             (events_until_Starting @ [Dispose, SetDisconnected, LoaderError]))
        \<noteq> None"
    by code_simp+
  then obtain t t' where t: "run_events (construct args_enabled)
      (events_until_Starting @ [Dispose, SetDisconnected, LoaderResponse response_ok]) = Some t"
    and t': "run_events (construct args_enabled)
      (events_until_Starting @ [Dispose, SetDisconnected, LoaderError]) = Some t'"
    by auto
  from t s' have st1: "step s' (LoaderResponse response_ok) = Some t"
    using run_events_append[of "construct args_enabled"
        "events_until_Starting @ [Dispose, SetDisconnected]" "[LoaderResponse response_ok]"]
    by (simp split: option.splits)
  from t' s' have st2: "step s' LoaderError = Some t'"
    using run_events_append[of "construct args_enabled"
        "events_until_Starting @ [Dispose, SetDisconnected]" "[LoaderError]"]
    by (simp split: option.splits)
  have res: "createSummarizer_result response_ok = Some 7"
    by code_simp
  from dispose_while_Starting[OF st mid, of response_ok 7 t t'] res st1 st2 f a t t'
  show ?thesis
    by simp
qed

text \<open>
  C8 as stated fails.  The manager of \<open>args_enabled\<close> is \<open>Starting\<close> after
  \<open>events_until_Starting\<close>, with its initial-delay timer still running and a creation in
  flight that awaits neither delay.  After \<^verbatim>\<open>dispose()\<close> the loader answers with a
  summarizer: \<^verbatim>\<open>run\<close> assigns \<open>Running\<close>, calls the summarizer's \<^verbatim>\<open>run\<close>, and
  only then stops it with reason \<open>Disposed\<close>.
\<close>

theorem dispose_while_Starting_counterexample:
  "map_option state (run_events (construct args_enabled) events_until_Starting) = Some Starting
   \<and> map_option initialDelayTimer (run_events (construct args_enabled) events_until_Starting)
       = Some TimerPending
   \<and> map_option stateLog
        (run_events (construct args_enabled)
           (events_until_Starting @ [Dispose, LoaderResponse response_ok]))
       = Some [Starting, Running, Stopping]
   \<and> map_option effects
        (run_events (construct args_enabled)
           (events_until_Starting @ [Dispose, LoaderResponse response_ok]))
       = Some [EmitSummarizer (Some ''A''), TelemetryEvent ''CreatingSummarizer'',
               CreateSummarizerCall 0 False, TimerClear, SummarizerRun 7 (Some ''A''),
               SummarizerStop 7 Disposed]"
  by code_simp

subsection \<open>The throttle ceiling\<close>

lemma start_enabled:
  assumes "summariesEnabled s" and "\<not> clientIsSummarizer s"
  shows "start s =
           createSummarizer (throttleDelay s (throttleCalls s))
             (if defaultThrottleMaxDelayMs \<le> throttleDelay s (throttleCalls s)
              then raiseContainerWarning
                     ''SummaryManager: CreateSummarizer Max Throttle Delay'' False
                     ((setState Starting s)\<lparr>throttleCalls := Suc (throttleCalls s)\<rparr>)
              else (setState Starting s)\<lparr>throttleCalls := Suc (throttleCalls s)\<rparr>)"
  using assms by (simp add: start_def getDelay_def setState_def Let_def)

lemma start_onRejected_retries:
  "getShouldSummarizeState t = ShouldSummarize True \<Longrightarrow>
     start_onRejected t = start (perform (ErrorEvent ''CreateSummarizerError'') t)"
proof -
  have "getShouldSummarizeState (perform e t) = getShouldSummarizeState t" for e
    by (simp add: getShouldSummarizeState_def summarizer_def perform_def)
  then show "getShouldSummarizeState t = ShouldSummarize True \<Longrightarrow>
     start_onRejected t = start (perform (ErrorEvent ''CreateSummarizerError'') t)"
    by (simp add: start_onRejected_def tryRestart_def)
qed

text \<open>
  C9.  When \<^verbatim>\<open>start()\<close> gets past its two \<open>Disabled\<close> guards and the delay the throttler
  returns is at least \<open>defaultThrottleMaxDelayMs\<close>, it raises exactly one container warning
  (not logged, hence not fatal), and still calls \<^verbatim>\<open>createSummarizer\<close> with that delay:
  the state is \<open>Starting\<close> and the creation is in flight.  Should a creation be rejected
  while the manager still should summarize and start, the rejection callback calls
  \<^verbatim>\<open>start()\<close> again, however many attempts came before; \<^verbatim>\<open>start\<close> itself always
  returns.
\<close>

theorem start_max_throttle_delay:
  assumes "summariesEnabled s" and "\<not> clientIsSummarizer s"
    and "defaultThrottleMaxDelayMs \<le> throttleDelay s (throttleCalls s)"
  shows "effects (start s) =
           effects s @
             [RaiseContainerWarning ''SummaryManager: CreateSummarizer Max Throttle Delay'' False,
              TelemetryEvent ''CreatingSummarizer'',
              CreateSummarizerCall (throttleDelay s (throttleCalls s))
                (opsUntilFirstConnect s < opsToBypassInitialDelay)]
         \<and> state (start s) = Starting
         \<and> pendingCreate (start s) =
             pendingCreate s @ [(throttleDelay s (throttleCalls s),
                                 opsUntilFirstConnect s < opsToBypassInitialDelay)]
         \<and> (getShouldSummarizeState t = ShouldSummarize True \<longrightarrow>
              start_onRejected t = start (perform (ErrorEvent ''CreateSummarizerError'') t))"
proof (intro conjI impI)
  note st = start_enabled[OF assms(1,2)]
  show "effects (start s) =
           effects s @
             [RaiseContainerWarning ''SummaryManager: CreateSummarizer Max Throttle Delay'' False,
              TelemetryEvent ''CreatingSummarizer'',
              CreateSummarizerCall (throttleDelay s (throttleCalls s))
                (opsUntilFirstConnect s < opsToBypassInitialDelay)]"
    using assms(3)
    by (simp add: st createSummarizer_def raiseContainerWarning_def perform_def setState_def
        Let_def)
  show "state (start s) = Starting"
    by (simp add: st createSummarizer_def raiseContainerWarning_def perform_def setState_def
        Let_def)
  show "pendingCreate (start s) =
             pendingCreate s @ [(throttleDelay s (throttleCalls s),
                                 opsUntilFirstConnect s < opsToBypassInitialDelay)]"
    by (simp add: st createSummarizer_def raiseContainerWarning_def perform_def setState_def
        Let_def)
  show "start_onRejected t = start (perform (ErrorEvent ''CreateSummarizerError'') t)"
    if "getShouldSummarizeState t = ShouldSummarize True"
    using that by (rule start_onRejected_retries)
qed

theorem start_max_throttle_delay_witness:
  "effects (start (construct args_throttled)) =
     [RaiseContainerWarning ''SummaryManager: CreateSummarizer Max Throttle Delay'' False,
      TelemetryEvent ''CreatingSummarizer'', CreateSummarizerCall 30000 True]
   \<and> state (start (construct args_throttled)) = Starting
   \<and> pendingCreate (start (construct args_throttled)) = [(30000, True)]
   \<and> getShouldSummarizeState (setConnected ''A'' (construct args_throttled_elected))
       = ShouldSummarize True
   \<and> start_onRejected (setConnected ''A'' (construct args_throttled_elected))
       = start (perform (ErrorEvent ''CreateSummarizerError'')
                  (setConnected ''A'' (construct args_throttled_elected)))"
proof -
  have c: "summariesEnabled (construct args_throttled)"
    "\<not> clientIsSummarizer (construct args_throttled)"
    "defaultThrottleMaxDelayMs
       \<le> throttleDelay (construct args_throttled) (throttleCalls (construct args_throttled))"
    "effects (construct args_throttled) = []"
    "pendingCreate (construct args_throttled) = []"
    "throttleDelay (construct args_throttled) (throttleCalls (construct args_throttled)) = 30000"
    "opsUntilFirstConnect (construct args_throttled) < opsToBypassInitialDelay"
    "getShouldSummarizeState (setConnected ''A'' (construct args_throttled_elected))
       = ShouldSummarize True"
    by code_simp+
  from start_max_throttle_delay[OF c(1,2,3),
      of "setConnected ''A'' (construct args_throttled_elected)"] c(4,5,6,7,8)
  show ?thesis
    by simp
qed

section \<open>Properties of AgentScheduler\<close>

subsection \<open>The loops in closed form\<close>

lemma write_all_eq: "write_all ts v s = s\<lparr>writes := writes s @ map (\<lambda>t. (t, v)) ts\<rparr>"
  by (induction ts arbitrary: s) (simp_all add: writeCore_def)

lemma emit_all_eq: "emit_all ns s = s\<lparr>emitted := emitted s @ ns\<rparr>"
  by (induction ns arbitrary: s) simp_all

lemma register_check_None:
  "(register_check ts s = None) = (\<forall>t\<in>set ts. t \<notin> registeredTasks s)"
  by (induction ts) simp_all

lemma register_check_Some:
  "register_check ts s = Some e \<Longrightarrow>
     \<exists>t\<in>set ts. t \<in> registeredTasks s \<and> e = AlreadyRegistered t"
  by (induction ts) (auto split: if_splits)

lemma register_collect_eq:
  "register_collect ts s acc =
     (s\<lparr>registeredTasks := registeredTasks s \<union> set ts\<rparr>,
      acc @ filter (\<lambda>t. getTaskClientId s t = None) ts)"
  by (induction ts arbitrary: s acc) (simp_all add: Let_def getTaskClientId_def)

lemma release_check_None:
  "(release_check ts (isActive s) s = None) = (\<forall>t\<in>set ts. releasable s t)"
  by (induction ts) (auto simp: releasable_def split: sum.splits)

lemma release_all_eq:
  "release_all ts s =
     s\<lparr>locallyRunnableTasks := filter (\<lambda>p. fst p \<notin> set ts) (locallyRunnableTasks s),
       writes := writes s @ map (\<lambda>t. (t, None)) ts\<rparr>"
proof (induction ts arbitrary: s)
  case Nil
  then show ?case by simp
next
  case (Cons t ts)
  have "filter (\<lambda>p. fst p \<notin> set ts) (delete t (locallyRunnableTasks s))
        = filter (\<lambda>p. fst p \<notin> set (t # ts)) (locallyRunnableTasks s)"
    by (induction "locallyRunnableTasks s") (auto simp: delete_def intro: filter_cong)
  then show ?case
    by (simp add: Cons.IH writeCore_def)
qed

text \<open>
  C5.  \<^verbatim>\<open>register(taskIds)\<close> rejects when one of the ids is already in
  \<open>registeredTasks\<close>, naming such an id, and then leaves the whole state as it was.
  Otherwise it returns normally, every id is in \<open>registeredTasks\<close>, and the writes it
  adds are the unclaimed marker for exactly the given ids whose register entry is absent
  (in the order given); nothing else changes.
\<close>

theorem register_spec:
  "((\<exists>t\<in>set ts. t \<in> registeredTasks s) \<longrightarrow>
      (\<exists>t\<in>set ts. t \<in> registeredTasks s \<and> register ts s = (Some (AlreadyRegistered t), s)))
   \<and> ((\<forall>t\<in>set ts. t \<notin> registeredTasks s) \<longrightarrow>
        register ts s =
          (None, s\<lparr>registeredTasks := registeredTasks s \<union> set ts,
                   writes := writes s @ map (\<lambda>t. (t, None))
                                          (filter (\<lambda>t. getTaskClientId s t = None) ts)\<rparr>))"
proof (intro conjI impI)
  assume "\<exists>t\<in>set ts. t \<in> registeredTasks s"
  then have "register_check ts s \<noteq> None"
    by (simp add: register_check_None)
  then obtain e where e: "register_check ts s = Some e" by auto
  from register_check_Some[OF e] e
  show "\<exists>t\<in>set ts. t \<in> registeredTasks s \<and> register ts s = (Some (AlreadyRegistered t), s)"
    by (auto simp: register_def)
next
  assume "\<forall>t\<in>set ts. t \<notin> registeredTasks s"
  then have "register_check ts s = None"
    by (simp add: register_check_None)
  then show "register ts s =
          (None, s\<lparr>registeredTasks := registeredTasks s \<union> set ts,
                   writes := writes s @ map (\<lambda>t. (t, None))
                                          (filter (\<lambda>t. getTaskClientId s t = None) ts)\<rparr>)"
    by (simp add: register_def register_collect_eq registerCore_def write_all_eq)
qed

theorem register_spec_witness:
  "register [''a'', ''b''] sched_live_b =
     (None, sched_live_b\<lparr>registeredTasks := {''a'', ''b''}, writes := [(''a'', None)]\<rparr>)
   \<and> register [''c'', ''a'']
        (sched_live_b\<lparr>registeredTasks := {''a'', ''b''}, writes := [(''a'', None)]\<rparr>) =
       (Some (AlreadyRegistered ''a''),
        sched_live_b\<lparr>registeredTasks := {''a'', ''b''}, writes := [(''a'', None)]\<rparr>)"
proof -
  let ?s1 = "sched_live_b\<lparr>registeredTasks := {''a'', ''b''}, writes := [(''a'', None)]\<rparr>"
  have f: "registeredTasks sched_live_b = {}" "writes sched_live_b = []"
    "getTaskClientId sched_live_b ''a'' = None" "getTaskClientId sched_live_b ''b'' = Some None"
    by (simp_all add: sched_live_b_def sched_live_def getTaskClientId_def)
  have a: "register [''a'', ''b''] sched_live_b = (None, ?s1)"
    using register_spec[of "[''a'', ''b'']" sched_live_b] f by auto
  have "\<exists>t\<in>set [''c'', ''a'']. t \<in> registeredTasks ?s1 \<and>
          register [''c'', ''a''] ?s1 = (Some (AlreadyRegistered t), ?s1)"
    using register_spec[of "[''c'', ''a'']" ?s1] by simp
  then have b: "register [''c'', ''a''] ?s1 = (Some (AlreadyRegistered ''a''), ?s1)"
    by auto
  from a b show ?thesis by simp
qed

text \<open>
  C6, as amended.  \<^verbatim>\<open>release(taskIds)\<close> succeeds when every given id is in
  \<open>locallyRunnableTasks\<close> (it was picked by this replica; whether it is in
  \<open>registeredTasks\<close> plays no part), the replica is active, and the register names the
  replica's own client id as the id's owner.  It then writes the unclaimed marker for each
  id, in order, and removes each id from \<open>locallyRunnableTasks\<close>; nothing else changes.
  If some id fails one of the three conditions, \<^verbatim>\<open>release\<close> throws and the state is
  untouched.
\<close>

theorem release_spec:
  "((\<forall>t\<in>set ts. releasable s t) \<longrightarrow>
      release ts s =
        (None, s\<lparr>locallyRunnableTasks := filter (\<lambda>p. fst p \<notin> set ts) (locallyRunnableTasks s),
                 writes := writes s @ map (\<lambda>t. (t, None)) ts\<rparr>))
   \<and> ((\<exists>t\<in>set ts. \<not> releasable s t) \<longrightarrow> (\<exists>e. release ts s = (Some e, s)))"
proof (intro conjI impI)
  assume "\<forall>t\<in>set ts. releasable s t"
  then have "release_check ts (isActive s) s = None"
    by (simp add: release_check_None)
  then show "release ts s =
        (None, s\<lparr>locallyRunnableTasks := filter (\<lambda>p. fst p \<notin> set ts) (locallyRunnableTasks s),
                 writes := writes s @ map (\<lambda>t. (t, None)) ts\<rparr>)"
    by (simp add: release_def releaseCore_def release_all_eq)
next
  assume "\<exists>t\<in>set ts. \<not> releasable s t"
  then have "release_check ts (isActive s) s \<noteq> None"
    by (simp add: release_check_None)
  then show "\<exists>e. release ts s = (Some e, s)"
    by (auto simp: release_def)
qed

theorem release_spec_witness:
  "releasable sched_live_picked ''t''
   \<and> release [''t''] sched_live_picked =
       (None, sched_live_picked\<lparr>locallyRunnableTasks := [],
                                 writes := [(''t'', Some ''A''), (''t'', None)]\<rparr>)
   \<and> \<not> releasable sched_live_picked ''u''
   \<and> snd (release [''t'', ''u''] sched_live_picked) = sched_live_picked
   \<and> fst (release [''t'', ''u''] sched_live_picked) \<noteq> None"
proof -
  have f: "releasable sched_live_picked ''t''" "\<not> releasable sched_live_picked ''u''"
    "locallyRunnableTasks sched_live_picked = [(''t'', 1)]"
    "writes sched_live_picked = [(''t'', Some ''A'')]"
    by code_simp+
  have a: "release [''t''] sched_live_picked =
       (None, sched_live_picked\<lparr>locallyRunnableTasks := [],
                                 writes := [(''t'', Some ''A''), (''t'', None)]\<rparr>)"
    using release_spec[of "[''t'']" sched_live_picked] f by simp
  have "\<exists>e. release [''t'', ''u''] sched_live_picked = (Some e, sched_live_picked)"
    using release_spec[of "[''t'', ''u'']" sched_live_picked] f by simp
  with a f show ?thesis by auto
qed

text \<open>
  C6 as stated fails: \<open>sched_live_picked\<close> never called \<^verbatim>\<open>register\<close>, so \<open>t\<close> is not
  registered by this replica, and yet \<^verbatim>\<open>release("t")\<close> succeeds and writes the
  unclaimed marker.
\<close>

theorem release_unregistered_counterexample:
  "''t'' \<notin> registeredTasks sched_live_picked
   \<and> fst (release [''t''] sched_live_picked) = None
   \<and> writes (snd (release [''t''] sched_live_picked)) = [(''t'', Some ''A''), (''t'', None)]"
  by code_simp

text \<open>
  C4, as amended.  \<^verbatim>\<open>pick(taskId, worker)\<close> throws, changing nothing, if the id is
  already in \<open>locallyRunnableTasks\<close>.  Otherwise it records the worker there, and then:
  on a non-interactive client it fails assertion 0x118 and writes nothing; on an
  interactive client whose replica is active and sees the register entry of the id absent
  or unclaimed, it writes the local client id as claimant and changes nothing else (when
  the replica is attached and the runtime holds no client id, the \<^verbatim>\<open>clientId\<close> getter
  fails assertion 0x117 instead and nothing is written); on an interactive client whose
  replica is not active, or sees the entry claimed, it returns normally having only
  recorded the worker.  No replica that is not active writes anything.
\<close>

theorem pick_spec:
  "(has t (locallyRunnableTasks s) \<longrightarrow> pick t w s = (Some (AlreadyAttempted t), s))
   \<and> (\<not> has t (locallyRunnableTasks s) \<and> \<not> capabilities_interactive s \<longrightarrow>
        pick t w s =
          (Some (AssertionFailed 280),
           s\<lparr>locallyRunnableTasks := locallyRunnableTasks s @ [(t, w)]\<rparr>))
   \<and> (\<not> has t (locallyRunnableTasks s) \<and> capabilities_interactive s \<and> isActive s
        \<and> (getTaskClientId s t = None \<or> getTaskClientId s t = Some None) \<longrightarrow>
        pick t w s =
          (case clientId_AS s of
             Inr c \<Rightarrow>
               (None, s\<lparr>locallyRunnableTasks := locallyRunnableTasks s @ [(t, w)],
                        writes := writes s @ [(t, Some c)]\<rparr>)
           | Inl e \<Rightarrow>
               (Some e, s\<lparr>locallyRunnableTasks := locallyRunnableTasks s @ [(t, w)]\<rparr>)))
   \<and> (\<not> has t (locallyRunnableTasks s) \<and> capabilities_interactive s
        \<and> (\<not> isActive s \<or> getTaskClientId s t = Some (Some owner)) \<longrightarrow>
      pick t w s = (None, s\<lparr>locallyRunnableTasks := locallyRunnableTasks s @ [(t, w)]\<rparr>))
   \<and> (clientId_AS s = Inl e \<longrightarrow>
        attachState s \<noteq> Detached \<and> e = AssertionFailed 279
        \<and> (runtime_clientId s = None \<or> runtime_clientId s = Some []))
   \<and> (\<not> isActive s \<longrightarrow> writes (snd (pick t w s)) = writes s)"
proof -
  have a: "isActive (s\<lparr>locallyRunnableTasks := m\<rparr>) = isActive s" for m
    by (simp add: isActive_def)
  have b: "clientId_AS (s\<lparr>locallyRunnableTasks := m\<rparr>) = clientId_AS s" for m
    by (simp add: clientId_AS_def)
  have c: "getTaskClientId (s\<lparr>locallyRunnableTasks := m\<rparr>) t = getTaskClientId s t" for m
    by (simp add: getTaskClientId_def)
  have d: "clientId_AS s = Inl e \<longrightarrow>
        attachState s \<noteq> Detached \<and> e = AssertionFailed 279
        \<and> (runtime_clientId s = None \<or> runtime_clientId s = Some [])"
    by (auto simp: clientId_AS_def split: if_splits option.splits)
  have "pick t w s = (Some (AlreadyAttempted t), s)" if "has t (locallyRunnableTasks s)"
    using that by (simp add: pick_def)
  moreover have "pick t w s =
          (Some (AssertionFailed 280),
           s\<lparr>locallyRunnableTasks := locallyRunnableTasks s @ [(t, w)]\<rparr>)"
    if "\<not> has t (locallyRunnableTasks s) \<and> \<not> capabilities_interactive s"
    using that by (simp add: pick_def Let_def)
  moreover have "pick t w s =
          (case clientId_AS s of
             Inr c \<Rightarrow>
               (None, s\<lparr>locallyRunnableTasks := locallyRunnableTasks s @ [(t, w)],
                        writes := writes s @ [(t, Some c)]\<rparr>)
           | Inl e \<Rightarrow>
               (Some e, s\<lparr>locallyRunnableTasks := locallyRunnableTasks s @ [(t, w)]\<rparr>))"
    if "\<not> has t (locallyRunnableTasks s) \<and> capabilities_interactive s \<and> isActive s
        \<and> (getTaskClientId s t = None \<or> getTaskClientId s t = Some None)"
    using that by (auto simp: pick_def Let_def a b c writeCore_def split: sum.splits)
  moreover have
    "pick t w s = (None, s\<lparr>locallyRunnableTasks := locallyRunnableTasks s @ [(t, w)]\<rparr>)"
    if "\<not> has t (locallyRunnableTasks s) \<and> capabilities_interactive s
        \<and> (\<not> isActive s \<or> getTaskClientId s t = Some (Some owner))"
    using that by (auto simp: pick_def Let_def a b c)
  moreover have "writes (snd (pick t w s)) = writes s" if "\<not> isActive s"
    using that by (simp add: pick_def Let_def a)
  ultimately show ?thesis
    using d by blast
qed

theorem pick_spec_witness:
  "pick ''t'' 1 sched_live =
     (None, sched_live\<lparr>locallyRunnableTasks := [(''t'', 1)], writes := [(''t'', Some ''A'')]\<rparr>)
   \<and> pick ''t'' 2 sched_live_picked = (Some (AlreadyAttempted ''t''), sched_live_picked)
   \<and> pick ''t'' 1 sched_non_interactive =
       (Some (AssertionFailed 280), sched_non_interactive\<lparr>locallyRunnableTasks := [(''t'', 1)]\<rparr>)
   \<and> pick ''t'' 1 sched_live_anonymous =
       (Some (AssertionFailed 279), sched_live_anonymous\<lparr>locallyRunnableTasks := [(''t'', 1)]\<rparr>)
   \<and> \<not> isActive sched_live_dropped
   \<and> pick ''u'' 2 sched_live_dropped =
       (None, sched_live_dropped\<lparr>locallyRunnableTasks := [(''t'', 1), (''u'', 2)]\<rparr>)
   \<and> writes (snd (pick ''u'' 2 sched_live_dropped)) = writes sched_live_dropped"
proof -
  have f: "\<not> has ''t'' (locallyRunnableTasks sched_live)" "capabilities_interactive sched_live"
    "isActive sched_live" "getTaskClientId sched_live ''t'' = None"
    "clientId_AS sched_live = Inr ''A''" "locallyRunnableTasks sched_live = []"
    "writes sched_live = []"
    by (simp_all add: sched_live_def has_def isActive_def getTaskClientId_def clientId_AS_def)
  have g: "has ''t'' (locallyRunnableTasks sched_live_picked)" "\<not> isActive sched_live_dropped"
    "\<not> has ''u'' (locallyRunnableTasks sched_live_dropped)"
    "capabilities_interactive sched_live_dropped"
    "locallyRunnableTasks sched_live_dropped = [(''t'', 1)]"
    by code_simp+
  have h: "\<not> has ''t'' (locallyRunnableTasks sched_non_interactive)"
    "\<not> capabilities_interactive sched_non_interactive"
    "locallyRunnableTasks sched_non_interactive = []"
    "\<not> has ''t'' (locallyRunnableTasks sched_live_anonymous)"
    "capabilities_interactive sched_live_anonymous" "isActive sched_live_anonymous"
    "getTaskClientId sched_live_anonymous ''t'' = None"
    "clientId_AS sched_live_anonymous = Inl (AssertionFailed 279)"
    "locallyRunnableTasks sched_live_anonymous = []"
    by code_simp+
  from pick_spec[of "''t''" sched_live 1 "''A''" "AssertionFailed 279"] f
    pick_spec[of "''t''" sched_live_picked 2 "''A''" "AssertionFailed 279"] g(1)
    pick_spec[of "''u''" sched_live_dropped 2 "''A''" "AssertionFailed 279"] g(2,3,4,5)
    pick_spec[of "''t''" sched_non_interactive 1 "''A''" "AssertionFailed 279"] h(1,2,3)
    pick_spec[of "''t''" sched_live_anonymous 1 "''A''" "AssertionFailed 279"] h(4,5,6,7,8,9)
  show ?thesis by simp
qed

text \<open>
  C4 as stated fails on a non-interactive client: \<open>sched_non_interactive\<close> is active, has
  not attempted \<open>t\<close>, and the register has no entry for \<open>t\<close>; \<^verbatim>\<open>pick\<close> fails
  assertion 0x118 and writes nothing.
\<close>

theorem pick_active_unclaimed_counterexample:
  "isActive sched_non_interactive
   \<and> \<not> has ''t'' (locallyRunnableTasks sched_non_interactive)
   \<and> getTaskClientId sched_non_interactive ''t'' = None
   \<and> fst (pick ''t'' 1 sched_non_interactive) = Some (AssertionFailed 280)
   \<and> writes (snd (pick ''t'' 1 sched_non_interactive)) = []"
  by code_simp

text \<open>
  C10, as amended.  On a non-interactive client every call of \<^verbatim>\<open>pick\<close> fails before
  any register write: with the interactive assertion 0x118 when the id has not been
  attempted before, and with the already-attempted error, raised before the assertion is
  reached, when it has.  So no \<^verbatim>\<open>pick\<close> succeeds on a non-interactive client.
\<close>

theorem pick_non_interactive:
  "\<not> capabilities_interactive s \<Longrightarrow>
     fst (pick t w s) =
       Some (if has t (locallyRunnableTasks s) then AlreadyAttempted t else AssertionFailed 280)
     \<and> writes (snd (pick t w s)) = writes s"
  by (simp add: pick_def Let_def)

theorem pick_non_interactive_witness:
  "\<not> capabilities_interactive sched_non_interactive
   \<and> fst (pick ''t'' 1 sched_non_interactive) = Some (AssertionFailed 280)
   \<and> writes (snd (pick ''t'' 1 sched_non_interactive)) = writes sched_non_interactive"
proof -
  have f: "\<not> capabilities_interactive sched_non_interactive"
    "\<not> has ''t'' (locallyRunnableTasks sched_non_interactive)"
    by (simp_all add: sched_non_interactive_def sched_live_def has_def)
  from pick_non_interactive[OF f(1), of "''t''" 1] f show ?thesis
    by simp
qed

text \<open>
  C10 as stated fails: the second \<^verbatim>\<open>pick\<close> of the same id on a non-interactive client
  does not fail the interactive assertion; it throws the already-attempted error first.
\<close>

theorem pick_twice_non_interactive_counterexample:
  "\<not> capabilities_interactive (snd (pick ''t'' 1 sched_non_interactive))
   \<and> fst (pick ''t'' 2 (snd (pick ''t'' 1 sched_non_interactive)))
       = Some (AlreadyAttempted ''t'')
   \<and> fst (pick ''t'' 2 (snd (pick ''t'' 1 sched_non_interactive)))
       \<noteq> Some (AssertionFailed 280)"
  by code_simp

subsection \<open>Becoming inactive\<close>

lemma same_tasks_simps:
  "same_tasks s s"
  "same_tasks s (writeCore k v s') = same_tasks s s'"
  "same_tasks s (sendErrorEvent n s') = same_tasks s s'"
  by (simp_all add: same_tasks_def writeCore_def sendErrorEvent_def)

lemma claim_unclaimed_same: "same_tasks s0 s \<Longrightarrow> same_tasks s0 (snd (claim_unclaimed m s))"
  by (induction m s rule: claim_unclaimed.induct)
     (auto simp: same_tasks_simps split: sum.splits)

lemma clearTasks_same: "same_tasks s0 s \<Longrightarrow> same_tasks s0 (snd (clearTasks ts s))"
  by (simp add: clearTasks_def write_all_eq same_tasks_def)

lemma initializeCore_same: "same_tasks s (snd (initializeCore s))"
proof -
  obtain e1 s1 where c: "claim_unclaimed (locallyRunnableTasks s) s = (e1, s1)"
    by (cases "claim_unclaimed (locallyRunnableTasks s) s")
  have s1: "same_tasks s s1"
    using claim_unclaimed_same[of s s "locallyRunnableTasks s"] c by (simp add: same_tasks_simps)
  obtain e2 s2 where d: "clearTasks (clearCandidates s1) s1 = (e2, s2)"
    by (cases "clearTasks (clearCandidates s1) s1")
  have "same_tasks s s2"
    using clearTasks_same[OF s1, of "clearCandidates s1"] d by simp
  with s1 c d show ?thesis
    by (cases e1; cases e2) (simp_all add: initializeCore_def same_tasks_simps)
qed

lemma isActive_runningTasks: "isActive (s\<lparr>runningTasks := x\<rparr>) = isActive s"
  by (simp add: isActive_def)

lemma clearRunningTasks_inactive:
  "\<not> isActive s \<Longrightarrow>
     clearRunningTasks s =
       (None, s\<lparr>runningTasks := [], emitted := emitted s @ map Lost (runningTasks s)\<rparr>)"
  by (simp add: clearRunningTasks_def Let_def isActive_runningTasks emit_all_eq)

lemma clearRunningTasks_tasks:
  "runningTasks (snd (clearRunningTasks s)) = []
   \<and> registeredTasks (snd (clearRunningTasks s)) = registeredTasks s
   \<and> locallyRunnableTasks (snd (clearRunningTasks s)) = locallyRunnableTasks s"
proof (cases "isActive s")
  case False
  then show ?thesis by (simp add: clearRunningTasks_inactive)
next
  case True
  let ?s1 = "s\<lparr>runningTasks := []\<rparr>"
  have a: "isActive ?s1" using True by (simp add: isActive_runningTasks)
  obtain e s2 where i: "initializeCore ?s1 = (e, s2)" by (cases "initializeCore ?s1")
  from initializeCore_same[of ?s1] i have "same_tasks ?s1 s2" by simp
  with a i show ?thesis
    by (cases e) (simp_all add: clearRunningTasks_def Let_def emit_all_eq same_tasks_def)
qed

lemma on_disconnected_inactive:
  "attachState s \<noteq> Detached \<Longrightarrow> \<not> runtime_connected s \<Longrightarrow>
     on_disconnected s =
       (None, s\<lparr>runningTasks := [], emitted := emitted s @ map Lost (runningTasks s)\<rparr>)"
  by (simp add: on_disconnected_def clearRunningTasks_inactive isActive_def)

lemma on_attached_inactive:
  "\<not> isActive s \<Longrightarrow>
     on_attached s =
       (None, s\<lparr>runningTasks := [], emitted := emitted s @ map Lost (runningTasks s)\<rparr>)"
  by (simp add: on_attached_def clearRunningTasks_inactive)

lemma on_attached_tasks:
  "runningTasks (snd (on_attached s)) = []
   \<and> registeredTasks (snd (on_attached s)) = registeredTasks s
   \<and> locallyRunnableTasks (snd (on_attached s)) = locallyRunnableTasks s"
proof -
  obtain e s1 where c: "clearRunningTasks s = (e, s1)"
    by (cases "clearRunningTasks s")
  with clearRunningTasks_tasks[of s]
  have "runningTasks s1 = [] \<and> registeredTasks s1 = registeredTasks s
        \<and> locallyRunnableTasks s1 = locallyRunnableTasks s"
    by simp
  with c show ?thesis
    by (cases e) (simp_all add: on_attached_def sendErrorEvent_def)
qed

lemma reads_ignore_bookkeeping:
  "isActive (s\<lparr>writes := x\<rparr>) = isActive s"
  "clientId_AS (s\<lparr>writes := x\<rparr>) = clientId_AS s"
  "clientId_AS (s\<lparr>runningTasks := y\<rparr>) = clientId_AS s"
  "getTaskClientId (s\<lparr>writes := x\<rparr>) u = getTaskClientId s u"
  "getTaskClientId (s\<lparr>runningTasks := y\<rparr>) u = getTaskClientId s u"
  "clearCandidates (s\<lparr>writes := x\<rparr>) = clearCandidates s"
  "clearCandidates (s\<lparr>runningTasks := y\<rparr>) = clearCandidates s"
  by (auto simp: isActive_def clientId_AS_def getTaskClientId_def clearCandidates_def
      intro!: filter_cong split: option.splits)

lemma claim_unclaimed_eq:
  "clientId_AS s = Inr c \<Longrightarrow>
     claim_unclaimed m s =
       (None, s\<lparr>writes := writes s @ map (\<lambda>t. (t, Some c))
                 (filter (\<lambda>t. \<not> truthy (getTaskClientId s t)) (map fst m))\<rparr>)"
proof (induction m arbitrary: s)
  case Nil
  then show ?case by simp
next
  case (Cons p m)
  obtain t w where p: "p = (t, w)" by (cases p)
  from Cons.prems have k: "clientId_AS (writeCore t (Some c) s) = Inr c"
    "\<And>u. getTaskClientId (writeCore t (Some c) s) u = getTaskClientId s u"
    by (simp_all add: writeCore_def reads_ignore_bookkeeping)
  show ?case
    using Cons.prems Cons.IH[OF Cons.prems] Cons.IH[OF k(1)]
    by (simp add: p k(2)) (simp add: writeCore_def)
qed

lemma initializeCore_active:
  assumes "isActive s" "clientId_AS s = Inr c"
  shows "initializeCore s =
     (None, s\<lparr>writes := writes s
                @ map (\<lambda>t. (t, Some c))
                    (filter (\<lambda>t. \<not> truthy (getTaskClientId s t))
                       (map fst (locallyRunnableTasks s)))
                @ map (\<lambda>t. (t, None)) (clearCandidates s)\<rparr>)"
proof -
  let ?s1 = "s\<lparr>writes := writes s @ map (\<lambda>t. (t, Some c))
                 (filter (\<lambda>t. \<not> truthy (getTaskClientId s t))
                    (map fst (locallyRunnableTasks s)))\<rparr>"
  have a: "isActive ?s1" using assms(1) by (simp add: reads_ignore_bookkeeping)
  have b: "clearCandidates ?s1 = clearCandidates s"
    by (simp add: reads_ignore_bookkeeping)
  show ?thesis
    by (simp add: initializeCore_def claim_unclaimed_eq[OF assms(2)] clearTasks_def a b
        write_all_eq)
qed

lemma on_attached_active:
  assumes "isActive s" "clientId_AS s = Inr c"
  shows "on_attached s =
     (None, s\<lparr>runningTasks := [],
              writes := writes s
                @ map (\<lambda>t. (t, Some c))
                    (filter (\<lambda>t. \<not> truthy (getTaskClientId s t))
                       (map fst (locallyRunnableTasks s)))
                @ map (\<lambda>t. (t, None)) (clearCandidates s),
              emitted := emitted s @ map Lost (runningTasks s)\<rparr>)"
proof -
  let ?s1 = "s\<lparr>runningTasks := []\<rparr>"
  have a: "isActive ?s1" using assms(1) by (simp add: isActive_runningTasks)
  have b: "clientId_AS ?s1 = Inr c" using assms(2) by (simp add: reads_ignore_bookkeeping)
  have c: "clearCandidates ?s1 = clearCandidates s"
    "\<And>t. getTaskClientId ?s1 t = getTaskClientId s t"
    by (simp_all add: reads_ignore_bookkeeping)
  show ?thesis
    by (simp add: on_attached_def clearRunningTasks_def Let_def a
        initializeCore_active[OF a b] c emit_all_eq)
qed

text \<open>
  C7, as amended.  On the \<^verbatim>\<open>disconnected\<close> event of an attached replica,
  \<^verbatim>\<open>clearRunningTasks\<close> empties \<open>runningTasks\<close>, emits one \<open>Lost\<close> notification per
  task that was running, in order, and changes nothing else: there is no register write,
  and \<open>registeredTasks\<close> and \<open>locallyRunnableTasks\<close> are as before (the first statement is
  the listener on a runtime that reports no connection, the second the event itself).
  When a detached replica reaches attached, the \<^verbatim>\<open>waitAttached\<close> callback does exactly
  the same if the replica is then inactive (the third statement; the fourth is the event
  without a live connection).  If the replica is active at that moment, with its client id
  \<open>c\<close> at hand, the callback also runs \<^verbatim>\<open>initializeCore\<close> before it emits the
  notifications: it writes \<open>c\<close> as claimant for every locally runnable task whose register
  entry is absent, unclaimed or empty, and then the unclaimed marker for every entry whose
  owner is not in the quorum (the fifth statement).  Whether or not the replica is active,
  the attach callback empties \<open>runningTasks\<close> and leaves \<open>registeredTasks\<close> and
  \<open>locallyRunnableTasks\<close> alone.
\<close>

theorem clearRunningTasks_on_inactive:
  "(attachState s \<noteq> Detached \<and> \<not> runtime_connected s \<longrightarrow>
      on_disconnected s =
        (None, s\<lparr>runningTasks := [], emitted := emitted s @ map Lost (runningTasks s)\<rparr>))
   \<and> (attachState s \<noteq> Detached \<longrightarrow>
        disconnected s =
          (None, s\<lparr>runtime_connected := False, runningTasks := [],
                   emitted := emitted s @ map Lost (runningTasks s)\<rparr>))
   \<and> (\<not> isActive s \<longrightarrow>
        on_attached s =
          (None, s\<lparr>runningTasks := [], emitted := emitted s @ map Lost (runningTasks s)\<rparr>))
   \<and> (waitAttachedPending s \<and> \<not> (runtime_connected s \<and> deltaManager_active s) \<longrightarrow>
        attached s =
          (None, s\<lparr>attachState := Attached, routingContextAttached := True,
                   waitAttachedPending := False, runningTasks := [],
                   emitted := emitted s @ map Lost (runningTasks s)\<rparr>))
   \<and> (isActive s \<and> clientId_AS s = Inr c \<longrightarrow>
        on_attached s =
          (None, s\<lparr>runningTasks := [],
                   writes := writes s
                     @ map (\<lambda>t. (t, Some c))
                         (filter (\<lambda>t. \<not> truthy (getTaskClientId s t))
                            (map fst (locallyRunnableTasks s)))
                     @ map (\<lambda>t. (t, None)) (clearCandidates s),
                   emitted := emitted s @ map Lost (runningTasks s)\<rparr>))
   \<and> runningTasks (snd (on_attached s)) = []
   \<and> registeredTasks (snd (on_attached s)) = registeredTasks s
   \<and> locallyRunnableTasks (snd (on_attached s)) = locallyRunnableTasks s"
proof (intro conjI impI)
  show "on_disconnected s =
        (None, s\<lparr>runningTasks := [], emitted := emitted s @ map Lost (runningTasks s)\<rparr>)"
    if "attachState s \<noteq> Detached \<and> \<not> runtime_connected s"
    using that by (simp add: on_disconnected_inactive)
  show "disconnected s =
          (None, s\<lparr>runtime_connected := False, runningTasks := [],
                   emitted := emitted s @ map Lost (runningTasks s)\<rparr>)"
    if "attachState s \<noteq> Detached"
    using that by (simp add: disconnected_def on_disconnected_inactive)
  show "on_attached s =
          (None, s\<lparr>runningTasks := [], emitted := emitted s @ map Lost (runningTasks s)\<rparr>)"
    if "\<not> isActive s"
    using that by (rule on_attached_inactive)
  show "attached s =
          (None, s\<lparr>attachState := Attached, routingContextAttached := True,
                   waitAttachedPending := False, runningTasks := [],
                   emitted := emitted s @ map Lost (runningTasks s)\<rparr>)"
    if "waitAttachedPending s \<and> \<not> (runtime_connected s \<and> deltaManager_active s)"
  proof -
    let ?t = "s\<lparr>attachState := Attached, routingContextAttached := True,
                waitAttachedPending := False\<rparr>"
    from that have "\<not> isActive ?t" by (auto simp: isActive_def)
    from on_attached_inactive[OF this] that show ?thesis
      by (simp add: attached_def)
  qed
  show "on_attached s =
          (None, s\<lparr>runningTasks := [],
                   writes := writes s
                     @ map (\<lambda>t. (t, Some c))
                         (filter (\<lambda>t. \<not> truthy (getTaskClientId s t))
                            (map fst (locallyRunnableTasks s)))
                     @ map (\<lambda>t. (t, None)) (clearCandidates s),
                   emitted := emitted s @ map Lost (runningTasks s)\<rparr>)"
    if "isActive s \<and> clientId_AS s = Inr c"
    using that by (simp add: on_attached_active)
  show "runningTasks (snd (on_attached s)) = []"
    "registeredTasks (snd (on_attached s)) = registeredTasks s"
    "locallyRunnableTasks (snd (on_attached s)) = locallyRunnableTasks s"
    using on_attached_tasks[of s] by simp_all
qed

theorem clearRunningTasks_on_inactive_witness:
  "attachState sched_live_dropped \<noteq> Detached \<and> \<not> runtime_connected sched_live_dropped
   \<and> \<not> isActive sched_live_dropped
   \<and> runningTasks sched_live_dropped = [''t'']
   \<and> on_disconnected sched_live_dropped =
       (None, sched_live_dropped\<lparr>runningTasks := [],
                                  emitted := [Picked ''t'', Lost ''t'']\<rparr>)
   \<and> disconnected sched_live_picked =
       (None, sched_live_picked\<lparr>runtime_connected := False, runningTasks := [],
                                 emitted := [Picked ''t'', Lost ''t'']\<rparr>)
   \<and> on_attached sched_live_dropped =
       (None, sched_live_dropped\<lparr>runningTasks := [],
                                  emitted := [Picked ''t'', Lost ''t'']\<rparr>)
   \<and> attached (sched_detached_running\<lparr>runtime_connected := False\<rparr>) =
       (None, sched_detached_running
                \<lparr>runtime_connected := False, attachState := Attached,
                 routingContextAttached := True, waitAttachedPending := False,
                 runningTasks := [], emitted := [Picked ''t'', Lost ''t'']\<rparr>)
   \<and> on_attached sched_just_attached =
       (None, sched_just_attached
                \<lparr>runningTasks := [],
                 writes := [(''t'', Some ''uuid_unattached''), (''t'', None)],
                 emitted := [Picked ''t'', Lost ''t'']\<rparr>)"
proof -
  have f: "attachState sched_live_dropped \<noteq> Detached" "\<not> runtime_connected sched_live_dropped"
    "\<not> isActive sched_live_dropped" "runningTasks sched_live_dropped = [''t'']"
    "emitted sched_live_dropped = [Picked ''t'']"
    "attachState sched_live_picked \<noteq> Detached" "runningTasks sched_live_picked = [''t'']"
    "emitted sched_live_picked = [Picked ''t'']"
    "waitAttachedPending sched_detached_running"
    "runningTasks sched_detached_running = [''t'']"
    "emitted sched_detached_running = [Picked ''t'']"
    by code_simp+
  have g: "isActive sched_just_attached" "clientId_AS sched_just_attached = Inr ''A''"
    "runningTasks sched_just_attached = [''t'']"
    "emitted sched_just_attached = [Picked ''t'']"
    "writes sched_just_attached = [(''t'', Some ''uuid_unattached'')]"
    "filter (\<lambda>t. \<not> truthy (getTaskClientId sched_just_attached t))
       (map fst (locallyRunnableTasks sched_just_attached)) = []"
    "clearCandidates sched_just_attached = [''t'']"
    by code_simp+
  from clearRunningTasks_on_inactive[of sched_live_dropped "''A''"]
    clearRunningTasks_on_inactive[of sched_live_picked "''A''"]
    clearRunningTasks_on_inactive[of "sched_detached_running\<lparr>runtime_connected := False\<rparr>" "''A''"]
    clearRunningTasks_on_inactive[of sched_just_attached "''A''"]
    f g
  show ?thesis
    by simp
qed

text \<open>
  C7 as stated fails for the second of its two events.  \<open>sched_detached_running\<close> is a
  detached replica running \<open>t\<close>, inside a connected container; when it reaches attached it
  is active, and the \<^verbatim>\<open>waitAttached\<close> callback writes to the register: it clears the
  entry held by the unattached client id.
\<close>

theorem attach_while_connected_counterexample:
  "attachState sched_detached_running = Detached
   \<and> waitAttachedPending sched_detached_running
   \<and> runningTasks sched_detached_running = [''t'']
   \<and> attachState (snd (attached sched_detached_running)) = Attached
   \<and> writes (snd (attached sched_detached_running))
       = writes sched_detached_running @ [(''t'', None)]
   \<and> writes (snd (attached sched_detached_running)) \<noteq> writes sched_detached_running"
  by code_simp

section \<open>Convergence of the replicas\<close>

subsection \<open>What the operations and the listeners do to a replica at rest\<close>



lemma isActive_settled: "settled r \<Longrightarrow> isActive r = (runtime_connected r \<and> deltaManager_active r)"
  by (auto simp: settled_def isActive_def)










subsection \<open>The invariant is kept by a step of one replica\<close>
















subsection \<open>The calls and the loss of the connection are such steps\<close>









subsection \<open>A connection\<close>









subsection \<open>A departure from the quorum\<close>








subsection \<open>A delivery\<close>





subsection \<open>Every reachable world\<close>






subsection \<open>Three rounds empty the log\<close>









subsection \<open>Convergence\<close>





end
